theory Spec2Isabelle
  imports Complex_Main "HOL-Library.Sublist" "HOL-Library.Code_Target_Numeral"
begin

chapter \<open>The Street View archiver\<close>

text \<open>
  The archiver takes a Google Maps URL, extracts a latitude and a longitude from it
  (\<open>extract_coordinates\<close>), asks a geocoding service for the country and the state of
  that place (\<open>get_location_info\<close>) and adds a hyperlinked coordinate line to a Google
  document under a country heading and a state heading, unless the document already
  mentions the place (\<open>location_exists_in_doc\<close>, \<open>archive_location\<close>). The three
  methods of the class \<open>StreetViewArchiver\<close> are embedded as functions; what they read
  from the network (the geocoding answer, the body of the document) is an argument, what
  they raise is a value of the type \<open>exn\<close>, and what \<open>archive_location\<close> sends to the
  document service is its result. Definitions come first, properties after them.
\<close>

section \<open>Python values used by the archiver\<close>

text \<open>
  Strings are lists of characters; \<open>len\<close> is \<open>length\<close>. Isabelle's \<open>char\<close> has 256
  values, so the model covers the strings whose code points are below 256. On those,
  the regular-expression class \<^verbatim>\<open>\d\<close> is exactly the ten ASCII digits.
\<close>

definition is_digit :: "char \<Rightarrow> bool" where
  "is_digit c \<longleftrightarrow> c \<in> set ''0123456789''"

definition digit_val :: "char \<Rightarrow> nat" where
  "digit_val c = of_char c - 48"

definition nat_of_digits :: "string \<Rightarrow> nat" where
  "nat_of_digits ds = foldl (\<lambda>n c. 10 * n + digit_val c) 0 ds"

text \<open>
  A Python \<open>float\<close> is a binary64 number: a sign and a magnitude, one of the two
  infinities, or not-a-number. The sign is kept apart from the magnitude because
  \<open>float("-0.0")\<close> is a negative zero and prints as one. The magnitude of a finite
  binary64 number is a rational number, m times a power of two with m below
  \<open>2 ^ 53\<close> and the exponent from -1074 to 971.
\<close>

datatype pyfloat = Finite bool rat | Infinity bool | NaN

text \<open>Rounding a magnitude to the nearest integer, a tie to the even one.\<close>

definition round_half_even :: "rat \<Rightarrow> nat" where
  "round_half_even q =
     (let f = nat \<lfloor>q\<rfloor>; d = q - of_nat f
      in if d < 1 / 2 then f
         else if 1 / 2 < d then f + 1
         else if even f then f
         else f + 1)"

text \<open>The number of binary digits of a natural number, and the powers of two.\<close>

fun bit_length :: "nat \<Rightarrow> nat" where
  "bit_length n = (if n = 0 then 0 else Suc (bit_length (n div 2)))"

declare bit_length.simps [simp del]

definition pow2 :: "int \<Rightarrow> rat" where
  "pow2 e = (if 0 \<le> e then 2 ^ nat e else 1 / 2 ^ nat (- e))"

text \<open>
  The binary64 number nearest to the fraction \<open>n / d\<close> (\<open>d\<close> positive), a tie going to
  the even significand, as \<open>float\<close> converts a decimal literal. With \<open>fl\<close> the
  integer part of the binary logarithm of \<open>n / d\<close>, the exponent of the result is
  \<open>fl - 52\<close>, or -1074 for the subnormal numbers; the significand is \<open>n / d\<close> over that
  power of two, rounded. A result of \<open>2 ^ 1024\<close> or more is an infinity.
\<close>

definition round_binary64 :: "bool \<Rightarrow> nat \<Rightarrow> nat \<Rightarrow> pyfloat" where
  "round_binary64 neg n d =
     (if n = 0 then Finite neg 0
      else
        let q = of_nat n / of_nat d;
            t = int (bit_length n) - int (bit_length d);
            fl = (if pow2 t \<le> q then t else t - 1);
            e = max (fl - 52) (- 1074);
            m = round_half_even (q * pow2 (- e));
            v = of_nat m * pow2 e
        in if 2 ^ 1024 \<le> v then Infinity neg else Finite neg v)"

text \<open>
  \<open>float(s)\<close> on the decimal literals: an optional sign, digits, and an optional
  point followed by digits (at least one digit in all). \<open>None\<close> stands for
  \<open>ValueError\<close>. Python accepts further spellings (an exponent, underscores between
  digits, \<open>inf\<close> and \<open>nan\<close>, white space around the literal); each of them contains a
  character that the two URL patterns below cannot capture.
\<close>

definition py_float :: "string \<Rightarrow> pyfloat option" where
  "py_float s =
     (let neg = (s \<noteq> [] \<and> hd s = CHR ''-'');
          r = (if s \<noteq> [] \<and> (hd s = CHR ''-'' \<or> hd s = CHR ''+'') then tl s else s);
          ip = takeWhile is_digit r;
          r1 = dropWhile is_digit r
      in case r1 of
           [] \<Rightarrow> if ip = [] then None else Some (round_binary64 neg (nat_of_digits ip) 1)
         | c # fp \<Rightarrow>
             if c = CHR ''.'' \<and> list_all is_digit fp \<and> (ip \<noteq> [] \<or> fp \<noteq> [])
             then Some (round_binary64 neg (nat_of_digits (ip @ fp)) (10 ^ length fp))
             else None)"

datatype exn =
    ValueError string
  | RequestException
  | HTTPError nat

text \<open>The class of an exception, which is what an \<open>except\<close> clause discriminates on.\<close>

fun exn_class :: "exn \<Rightarrow> string" where
  "exn_class (ValueError _) = ''ValueError''"
| "exn_class RequestException = ''requests.exceptions.RequestException''"
| "exn_class (HTTPError _) = ''requests.exceptions.HTTPError''"

section \<open>The coordinate extractor\<close>

text \<open>
  Both patterns of \<open>extract_coordinates\<close> have the shape
  \<^verbatim>\<open>L1(-?\d+\.\d+)L2(-?\d+\.\d+)\<close> for two literal strings: \<^verbatim>\<open>@\<close> and \<^verbatim>\<open>,\<close> in the
  first, \<^verbatim>\<open>!3d\<close> and \<^verbatim>\<open>!4d\<close> in the second. A pattern is modelled by its pair of
  literals.

  \<open>digits1\<close> is \<^verbatim>\<open>\d+\<close>: the longest run of digits, which must not be empty. Taking
  the longest run loses no match: in both patterns a group's digits are followed by a
  character that is not a digit (the point, the second literal) or by the end of the
  pattern, so a shorter run, which the regular-expression engine would try on
  backtracking, leaves a digit where that character is required, and at the end of the
  pattern the engine's greedy choice is the longest run.
\<close>

definition digits1 :: "string \<Rightarrow> (string \<times> string) option" where
  "digits1 s =
     (if takeWhile is_digit s = [] then None
      else Some (takeWhile is_digit s, dropWhile is_digit s))"

text \<open>\<^verbatim>\<open>-?\d+\.\d+\<close> at the head of a string: the captured text and what follows it.\<close>

definition signed_decimal :: "string \<Rightarrow> (string \<times> string) option" where
  "signed_decimal s =
     (let sg = (if s \<noteq> [] \<and> hd s = CHR ''-'' then ''-'' else []);
          r0 = (if s \<noteq> [] \<and> hd s = CHR ''-'' then tl s else s)
      in case digits1 r0 of
           None \<Rightarrow> None
         | Some (ip, r1) \<Rightarrow>
             (case r1 of
                [] \<Rightarrow> None
              | c # r2 \<Rightarrow>
                  if c = CHR ''.'' then
                    (case digits1 r2 of
                       None \<Rightarrow> None
                     | Some (fp, r3) \<Rightarrow> Some (sg @ ip @ ''.'' @ fp, r3))
                  else None))"

text \<open>A literal at the head of a string.\<close>

definition literal :: "string \<Rightarrow> string \<Rightarrow> string option" where
  "literal l s = (if take (length l) s = l then Some (drop (length l) s) else None)"

text \<open>The whole pattern anchored at the head of a string: the two captured groups.\<close>

definition match_at :: "string \<times> string \<Rightarrow> string \<Rightarrow> (string \<times> string) option" where
  "match_at p s =
     (case literal (fst p) s of
        None \<Rightarrow> None
      | Some r \<Rightarrow>
          (case signed_decimal r of
             None \<Rightarrow> None
           | Some (g1, r1) \<Rightarrow>
               (case literal (snd p) r1 of
                  None \<Rightarrow> None
                | Some r2 \<Rightarrow>
                    (case signed_decimal r2 of
                       None \<Rightarrow> None
                     | Some (g2, r3) \<Rightarrow> Some (g1, g2)))))"

text \<open>\<open>re.search\<close>: the match at the leftmost position that has one.\<close>

fun re_search :: "string \<times> string \<Rightarrow> string \<Rightarrow> (string \<times> string) option" where
  "re_search p [] = match_at p []"
| "re_search p (c # cs) =
     (case match_at p (c # cs) of
        Some g \<Rightarrow> Some g
      | None \<Rightarrow> re_search p cs)"

definition patterns :: "(string \<times> string) list" where
  "patterns = [(''@'', '',''), (''!3d'', ''!4d'')]"

text \<open>
  The loop over the patterns. A pattern that matches but whose groups do not convert
  is skipped (\<open>except ValueError: continue\<close>).
\<close>

fun try_patterns :: "(string \<times> string) list \<Rightarrow> string \<Rightarrow> (pyfloat \<times> pyfloat) option" where
  "try_patterns [] url = None"
| "try_patterns (p # ps) url =
     (case re_search p url of
        None \<Rightarrow> try_patterns ps url
      | Some (g1, g2) \<Rightarrow>
          (case py_float g1 of
             None \<Rightarrow> try_patterns ps url
           | Some lat \<Rightarrow>
               (case py_float g2 of
                  None \<Rightarrow> try_patterns ps url
                | Some lon \<Rightarrow> Some (lat, lon))))"

definition extract_coordinates :: "string \<Rightarrow> exn + (pyfloat \<times> pyfloat)" where
  "extract_coordinates url =
     (case try_patterns patterns url of
        Some c \<Rightarrow> Inr c
      | None \<Rightarrow> Inl (ValueError (''Could not extract valid coordinates from URL: '' @ url)))"


subsection \<open>Predicates used to state the extractor's properties\<close>

text \<open>
  The shape \<^verbatim>\<open>-?\d+\.\d+\<close> of a whole string: an optional minus sign, digits, a
  point, digits.
\<close>

definition is_signed_decimal :: "string \<Rightarrow> bool" where
  "is_signed_decimal s =
     (let r = (if s \<noteq> [] \<and> hd s = CHR ''-'' then tl s else s);
          ip = takeWhile is_digit r;
          rest = dropWhile is_digit r
      in ip \<noteq> [] \<and> rest \<noteq> [] \<and> hd rest = CHR ''.'' \<and> tl rest \<noteq> [] \<and>
         list_all is_digit (tl rest))"

text \<open>
  A signed decimal starts at the head of the string: an optional minus sign, digits, a
  point and a digit.
\<close>

definition decimal_head :: "string \<Rightarrow> bool" where
  "decimal_head s =
     (let r = (if s \<noteq> [] \<and> hd s = CHR ''-'' then tl s else s);
          rest = dropWhile is_digit r
      in takeWhile is_digit r \<noteq> [] \<and> rest \<noteq> [] \<and> hd rest = CHR ''.'' \<and>
         tl rest \<noteq> [] \<and> is_digit (hd (tl rest)))"

text \<open>
  No occurrence of the marker in the string is followed by a signed decimal: the number
  that follows an occurrence, if one does, is written without a fraction.
\<close>

fun integer_after :: "string \<Rightarrow> string \<Rightarrow> bool" where
  "integer_after l [] =
     (case literal l [] of
        None \<Rightarrow> True
      | Some r \<Rightarrow> \<not> decimal_head r)"
| "integer_after l (c # cs) =
     ((case literal l (c # cs) of
         None \<Rightarrow> True
       | Some r \<Rightarrow> \<not> decimal_head r) \<and>
      integer_after l cs)"

text \<open>The groups of the first pattern of a list that matches somewhere in the URL.\<close>

fun first_match :: "(string \<times> string) list \<Rightarrow> string \<Rightarrow> (string \<times> string) option" where
  "first_match [] url = None"
| "first_match (p # ps) url =
     (case re_search p url of
        Some g \<Rightarrow> Some g
      | None \<Rightarrow> first_match ps url)"

text \<open>
  The range the specification asks of a coordinate pair: two finite numbers, the
  latitude of magnitude at most 90 and the longitude of magnitude at most 180.
\<close>

definition in_range :: "pyfloat \<times> pyfloat \<Rightarrow> bool" where
  "in_range c =
     (case c of
        (Finite n1 lat, Finite n2 lon) \<Rightarrow> \<bar>lat\<bar> \<le> 90 \<and> \<bar>lon\<bar> \<le> 180
      | _ \<Rightarrow> False)"

section \<open>The location resolver\<close>

text \<open>
  The geocoding service's JSON answer, at the shape \<open>get_location_info\<close> reads:
  a \<open>status\<close> field (read with \<open>get\<close>, so it may be absent), a list of results, each with
  its address components, each component with its long name and its list of types.
  A body that is not JSON of this shape (a result without address components, say)
  makes the method raise an error of the Python runtime; such bodies are outside the
  model.
\<close>

record address_component =
  long_name :: string
  types :: "string list"

record geocode_result =
  address_components :: "address_component list"

record geocode_response =
  status :: "string option"
  results :: "geocode_result list"

text \<open>
  What the one HTTP request comes back with: no answer at all (connection failure or
  the ten-second timeout; \<open>requests.get\<close> raises), or an answer with its HTTP status
  code and its parsed body. The request URL itself is not modelled: the reply is the
  service's answer to the request for the given coordinates.
\<close>

datatype http_reply = NoReply | Reply nat geocode_response

text \<open>
  The loop over the first result's components. It has no \<open>break\<close>: each component
  whose types contain the tag overwrites what an earlier one set.
\<close>

fun scan_components ::
  "address_component list \<Rightarrow> string option \<times> string option \<Rightarrow> string option \<times> string option" where
  "scan_components [] acc = acc"
| "scan_components (c # cs) (country, state) =
     scan_components cs
       (if ''country'' \<in> set (types c) then Some (long_name c) else country,
        if ''administrative_area_level_1'' \<in> set (types c) then Some (long_name c) else state)"

text \<open>
  \<open>raise_for_status\<close> raises for the codes 400 to 599. \<open>not country\<close> holds for
  \<open>None\<close> and for the empty string.
\<close>

definition get_location_info :: "http_reply \<Rightarrow> exn + (string \<times> string)" where
  "get_location_info reply =
     (case reply of
        NoReply \<Rightarrow> Inl RequestException
      | Reply code data \<Rightarrow>
          if 400 \<le> code \<and> code < 600 then Inl (HTTPError code)
          else if status data \<noteq> Some ''OK'' then
            Inl (ValueError (''Geocoding API error: '' @
                   (case status data of None \<Rightarrow> ''None'' | Some s \<Rightarrow> s)))
          else
            (case results data of
               [] \<Rightarrow> Inl (ValueError ''No results found for the given coordinates'')
             | r # rs \<Rightarrow>
                 (case scan_components (address_components r) (None, None) of
                    (Some country, Some state) \<Rightarrow>
                      if country = [] \<or> state = []
                      then Inl (ValueError ''Country or state information is missing'')
                      else Inr (country, state)
                  | _ \<Rightarrow> Inl (ValueError ''Country or state information is missing''))))"

subsection \<open>Predicates used to state the resolver's properties\<close>

definition is_country :: "address_component \<Rightarrow> bool" where
  "is_country c \<longleftrightarrow> ''country'' \<in> set (types c)"

definition is_state :: "address_component \<Rightarrow> bool" where
  "is_state c \<longleftrightarrow> ''administrative_area_level_1'' \<in> set (types c)"

section \<open>The document writer\<close>

text \<open>
  The body of the document as \<open>documents().get\<close> returns it: a list of structural
  elements. An element may have a \<open>startIndex\<close> and may be a paragraph; a paragraph is
  a list of elements, each of which may be a text run, which may have a content.
\<close>

datatype paragraph_element = TextRun "string option" | NoTextRun

record structural_element =
  startIndex :: "nat option"
  paragraph_elements :: "paragraph_element list option"

abbreviation NL :: char where
  "NL \<equiv> CHR 0x0A"

fun has_text_run :: "paragraph_element \<Rightarrow> bool" where
  "has_text_run (TextRun c) = True"
| "has_text_run NoTextRun = False"

fun run_content :: "paragraph_element \<Rightarrow> string" where
  "run_content (TextRun (Some s)) = s"
| "run_content (TextRun None) = []"
| "run_content NoTextRun = []"

text \<open>The text of a paragraph: the contents of its text runs, joined.\<close>

definition paragraph_text :: "paragraph_element list \<Rightarrow> string" where
  "paragraph_text els = concat (map run_content (filter has_text_run els))"

subsection \<open>Number formatting and \<open>strip\<close>\<close>

definition digit_char :: "nat \<Rightarrow> char" where
  "digit_char d = ''0123456789'' ! d"

fun show_nat :: "nat \<Rightarrow> string" where
  "show_nat n = (if n < 10 then [digit_char n] else show_nat (n div 10) @ [digit_char (n mod 10)])"

declare show_nat.simps [simp del]

text \<open>A magnitude with six digits after the point.\<close>

definition fixed6 :: "rat \<Rightarrow> string" where
  "fixed6 m =
     (let n = round_half_even (m * 1000000)
      in show_nat (n div 1000000) @ ''.'' @
         map (\<lambda>i. digit_char (n div 10 ^ i mod 10)) [5, 4, 3, 2, 1, 0])"

text \<open>The format \<^verbatim>\<open>{x:.6f}\<close>.\<close>

fun fmt6 :: "pyfloat \<Rightarrow> string" where
  "fmt6 (Finite neg m) = (if neg then ''-'' else []) @ fixed6 \<bar>m\<bar>"
| "fmt6 (Infinity neg) = (if neg then ''-inf'' else ''inf'')"
| "fmt6 NaN = ''nan''"

text \<open>
  \<open>str.isspace\<close> on the code points below 256, and \<open>str.strip\<close>, which removes white
  space at both ends.
\<close>

definition is_space :: "char \<Rightarrow> bool" where
  "is_space c \<longleftrightarrow> of_char c \<in> {9, 10, 11, 12, 13, 28, 29, 30, 31, 32, 133, 160 :: nat}"

definition strip :: "string \<Rightarrow> string" where
  "strip s = rev (dropWhile is_space (rev (dropWhile is_space s)))"

subsection \<open>The duplicate check\<close>

definition search_text :: "pyfloat \<Rightarrow> pyfloat \<Rightarrow> string" where
  "search_text lat lon = fmt6 lat @ '', '' @ fmt6 lon"

fun location_exists_in_doc :: "structural_element list \<Rightarrow> pyfloat \<Rightarrow> pyfloat \<Rightarrow> string \<Rightarrow> bool" where
  "location_exists_in_doc [] lat lon url = False"
| "location_exists_in_doc (element # rest) lat lon url =
     (case paragraph_elements element of
        None \<Rightarrow> location_exists_in_doc rest lat lon url
      | Some els \<Rightarrow>
          if sublist (search_text lat lon) (paragraph_text els) \<or> sublist url (paragraph_text els)
          then True
          else location_exists_in_doc rest lat lon url)"

subsection \<open>Header discovery and the batch of requests\<close>

text \<open>
  The scan for the two headers: every paragraph of the whole body is compared, a later
  paragraph overwrites an earlier find, and the state is only looked at when the
  paragraph is not the country (\<open>elif\<close>). A paragraph without \<open>startIndex\<close> counts as
  starting at 1.
\<close>

fun find_headers ::
  "structural_element list \<Rightarrow> string \<Rightarrow> string \<Rightarrow> nat option \<times> nat option \<Rightarrow> nat option \<times> nat option" where
  "find_headers [] country state acc = acc"
| "find_headers (element # rest) country state (country_index, state_index) =
     (case paragraph_elements element of
        None \<Rightarrow> find_headers rest country state (country_index, state_index)
      | Some els \<Rightarrow>
          if strip (paragraph_text els) = country then
            find_headers rest country state
              (Some (case startIndex element of None \<Rightarrow> 1 | Some i \<Rightarrow> i), state_index)
          else if strip (paragraph_text els) = state then
            find_headers rest country state
              (country_index, Some (case startIndex element of None \<Rightarrow> 1 | Some i \<Rightarrow> i))
          else find_headers rest country state (country_index, state_index))"

datatype named_style = HEADING_1 | HEADING_2 | NORMAL_TEXT

text \<open>
  The three kinds of request the writer sends: \<open>insertText\<close> (index, text),
  \<open>updateParagraphStyle\<close> (start index, end index, named style) and
  \<open>updateTextStyle\<close> with a link (start index, end index, url).
\<close>

datatype request =
    InsertText nat string
  | UpdateParagraphStyle nat nat named_style
  | UpdateTextStyle nat nat string

text \<open>
  What one call of \<open>archive_location\<close> does: it returns early without a request, or
  it sends one \<open>batchUpdate\<close> with a list of requests. The method fetches the body
  twice, once inside the duplicate check and once for the header scan; with the single
  caller the program has, both fetches return the same body, the argument \<open>content\<close>.
  A fetch or a \<open>batchUpdate\<close> that the service refuses raises the client library's
  error out of the method; the store below models the refusal of a batch.
\<close>

datatype outcome = SkippedDuplicate | Appended "request list"

definition coord_requests :: "nat \<Rightarrow> string \<Rightarrow> string \<Rightarrow> request list" where
  "coord_requests coord_index coord_text url =
     [InsertText coord_index coord_text,
      UpdateTextStyle coord_index (coord_index + length (strip coord_text)) url,
      UpdateParagraphStyle coord_index (coord_index + length coord_text) NORMAL_TEXT]"

definition archive_location ::
  "structural_element list \<Rightarrow> string \<Rightarrow> pyfloat \<Rightarrow> pyfloat \<Rightarrow> string \<Rightarrow> string \<Rightarrow> outcome" where
  "archive_location content url lat lon country state =
     (if location_exists_in_doc content lat lon url then SkippedDuplicate
      else
        let found = find_headers content country state (None, None);
            country_requests =
              (case fst found of
                 None \<Rightarrow>
                   [InsertText 1 (country @ [NL]),
                    UpdateParagraphStyle 1 (length country + 2) HEADING_1]
               | Some i \<Rightarrow> []);
            country_index = (case fst found of None \<Rightarrow> 1 | Some i \<Rightarrow> i);
            state_insert_index = country_index + length country + 1;
            state_requests =
              (case snd found of
                 None \<Rightarrow>
                   [InsertText state_insert_index (state @ [NL]),
                    UpdateParagraphStyle state_insert_index
                      (state_insert_index + length state + 1) HEADING_2]
               | Some i \<Rightarrow> []);
            state_index = (case snd found of None \<Rightarrow> state_insert_index | Some i \<Rightarrow> i);
            coord_text = search_text lat lon @ [NL];
            coord_index = state_index + length state + 1
        in Appended (country_requests @ state_requests @ coord_requests coord_index coord_text url))"

section \<open>The document store\<close>

text \<open>
  Modelled from the spec: the external structured-document service, which is not code
  of this repository. The specification describes it as an ordered sequence of
  paragraphs, each with its text and its style tag, that returns its body as paragraph
  elements with start offsets and applies a batch of insert-text and set-style
  operations atomically, an insertion shifting all later character offsets forward by
  the inserted length.

  A document is its list of paragraphs: the named style and the text, without the
  newline that ends every paragraph. Offsets count characters from 1, as the service
  does; the newline of a paragraph occupies one offset. Link annotations are not
  stored: no property below reads them back.
\<close>

type_synonym doc = "(named_style \<times> string) list"

definition wf_doc :: "doc \<Rightarrow> bool" where
  "wf_doc d = list_all (\<lambda>p. NL \<notin> set (snd p)) d"

text \<open>
  Modelled from the spec: the body the service returns. A section break without a
  paragraph comes first, then every paragraph with its start offset and one text run
  holding its text and its newline.
\<close>

fun body_from :: "nat \<Rightarrow> doc \<Rightarrow> structural_element list" where
  "body_from i [] = []"
| "body_from i (p # ps) =
     \<lparr>startIndex = Some i, paragraph_elements = Some [TextRun (Some (snd p @ [NL]))]\<rparr>
       # body_from (i + length (snd p) + 1) ps"

definition body_content :: "doc \<Rightarrow> structural_element list" where
  "body_content d = \<lparr>startIndex = None, paragraph_elements = None\<rparr> # body_from 1 d"

text \<open>The lines of a text: \<open>split_lines\<close> of a text with n newlines has n + 1 lines.\<close>

fun split_lines :: "string \<Rightarrow> string list" where
  "split_lines [] = [[]]"
| "split_lines (c # cs) =
     (if c = NL then [] # split_lines cs
      else (case split_lines cs of
              [] \<Rightarrow> [[c]]
            | l # ls \<Rightarrow> (c # l) # ls))"

text \<open>
  Modelled from the spec: inserting a text at the k-th character (counted from 0) of a
  list of paragraphs. The text goes into the paragraph that holds the offset; the
  newlines of the text end paragraphs, and every paragraph that results takes the
  style of the paragraph inserted into. An offset past the last newline is refused.
\<close>

fun insert_at :: "nat \<Rightarrow> string \<Rightarrow> doc \<Rightarrow> doc option" where
  "insert_at k txt [] = None"
| "insert_at k txt (p # ps) =
     (if k \<le> length (snd p)
      then Some (map (Pair (fst p)) (split_lines (take k (snd p) @ txt @ drop k (snd p))) @ ps)
      else map_option (Cons p) (insert_at (k - length (snd p) - 1) txt ps))"

text \<open>
  The number of offsets a list of paragraphs occupies, and the end offset of the body
  (the offset just after the newline of the last paragraph).
\<close>

fun doc_span :: "doc \<Rightarrow> nat" where
  "doc_span [] = 0"
| "doc_span (p # ps) = length (snd p) + 1 + doc_span ps"

definition doc_end :: "doc \<Rightarrow> nat" where
  "doc_end d = 1 + doc_span d"

text \<open>
  Modelled from the spec: setting the style of every paragraph that overlaps the
  offsets from a up to, not including, b; i is the start offset of the first
  paragraph of the list.
\<close>

fun restyle_from :: "nat \<Rightarrow> nat \<Rightarrow> nat \<Rightarrow> named_style \<Rightarrow> doc \<Rightarrow> doc" where
  "restyle_from i a b sty [] = []"
| "restyle_from i a b sty (p # ps) =
     (if i < b \<and> a < i + length (snd p) + 1 then (sty, snd p) else p)
       # restyle_from (i + length (snd p) + 1) a b sty ps"

text \<open>
  Modelled from the spec: one request. A range must be non-empty and lie within the
  body; \<open>None\<close> is the service refusing the request.
\<close>

fun apply_request :: "request \<Rightarrow> doc \<Rightarrow> doc option" where
  "apply_request (InsertText i txt) d = (if i = 0 then None else insert_at (i - 1) txt d)"
| "apply_request (UpdateParagraphStyle a b sty) d =
     (if 1 \<le> a \<and> a < b \<and> b \<le> doc_end d then Some (restyle_from 1 a b sty d) else None)"
| "apply_request (UpdateTextStyle a b url) d =
     (if 1 \<le> a \<and> a < b \<and> b \<le> doc_end d then Some d else None)"

text \<open>
  Modelled from the spec: a batch applies its requests in order, each to the document
  the one before it left, and as a whole or not at all.
\<close>

fun batch_update :: "request list \<Rightarrow> doc \<Rightarrow> doc option" where
  "batch_update [] d = Some d"
| "batch_update (r # rs) d =
     (case apply_request r d of
        None \<Rightarrow> None
      | Some d' \<Rightarrow> batch_update rs d')"

text \<open>
  One call of \<open>archive_location\<close> against the store: the outcome and the document
  after it. \<open>None\<close> is the call failing because the service refused the batch, which
  leaves the document as it was.
\<close>

definition run_archive ::
  "doc \<Rightarrow> string \<Rightarrow> pyfloat \<Rightarrow> pyfloat \<Rightarrow> string \<Rightarrow> string \<Rightarrow> (outcome \<times> doc) option" where
  "run_archive d url lat lon country state =
     (case archive_location (body_content d) url lat lon country state of
        SkippedDuplicate \<Rightarrow> Some (SkippedDuplicate, d)
      | Appended reqs \<Rightarrow> map_option (Pair (Appended reqs)) (batch_update reqs d))"

text \<open>The NORMAL_TEXT paragraphs whose text holds the formatted coordinates.\<close>

definition coordinate_paragraphs :: "doc \<Rightarrow> pyfloat \<Rightarrow> pyfloat \<Rightarrow> doc" where
  "coordinate_paragraphs d lat lon =
     filter (\<lambda>p. fst p = NORMAL_TEXT \<and> sublist (search_text lat lon) (snd p)) d"

subsection \<open>Predicates used to state the writer's properties\<close>

text \<open>The paragraphs that the header scan takes for a label: those whose stripped text is the label.\<close>

definition labelled :: "string \<Rightarrow> doc \<Rightarrow> doc" where
  "labelled l d = filter (\<lambda>p. strip (snd p) = l) d"

text \<open>The characters a formatted number can hold.\<close>

definition plain_char :: "char \<Rightarrow> bool" where
  "plain_char c \<longleftrightarrow> c \<in> set ''0123456789.-infa''"

section \<open>Properties of the coordinate extractor\<close>

lemma not_digit_minus [simp]: "\<not> is_digit CHR ''-''" "\<not> is_digit CHR ''.''" "\<not> is_digit CHR '',''" "\<not> is_digit CHR ''!''"
  by (simp_all add: is_digit_def)

lemma digits1_SomeD:
  assumes "digits1 s = Some (ds, r)"
  shows "ds \<noteq> [] \<and> list_all is_digit ds \<and> s = ds @ r \<and> (r = [] \<or> \<not> is_digit (hd r))"
proof -
  from assms have ds: "ds = takeWhile is_digit s" and r: "r = dropWhile is_digit s" and ne: "ds \<noteq> []"
    by (auto simp: digits1_def split: if_splits)
  have "list_all is_digit ds" unfolding ds list_all_iff by (auto dest: set_takeWhileD)
  moreover have "s = ds @ r" by (simp add: ds r)
  moreover have "r = [] \<or> \<not> is_digit (hd r)" unfolding r by (metis hd_dropWhile)
  ultimately show ?thesis using ne by simp
qed

lemma digits1_complete:
  assumes "ds \<noteq> []" "list_all is_digit ds" "r = [] \<or> \<not> is_digit (hd r)"
  shows "digits1 (ds @ r) = Some (ds, r)"
proof -
  have all: "\<And>x. x \<in> set ds \<Longrightarrow> is_digit x" using assms(2) by (simp add: list_all_iff)
  have t: "takeWhile is_digit (ds @ r) = ds"
  proof (cases r)
    case Nil then show ?thesis using all by simp
  next
    case (Cons c cs)
    with assms(3) have "\<not> is_digit c" by simp
    then show ?thesis using all Cons by (simp add: takeWhile_tail)
  qed
  have d: "dropWhile is_digit (ds @ r) = r"
  proof (cases r)
    case Nil then show ?thesis using all by simp
  next
    case (Cons c cs)
    with assms(3) have "\<not> is_digit c" by simp
    then show ?thesis using all Cons by (simp add: dropWhile_append2)
  qed
  show ?thesis using assms(1) by (simp add: digits1_def t d)
qed

lemma is_signed_decimal_iff:
  "is_signed_decimal s \<longleftrightarrow>
     (\<exists>sg ip fp. s = sg @ ip @ ''.'' @ fp \<and> (sg = [] \<or> sg = ''-'') \<and>
        ip \<noteq> [] \<and> list_all is_digit ip \<and> fp \<noteq> [] \<and> list_all is_digit fp)"
  (is "?L \<longleftrightarrow> ?R")
proof
  assume L: ?L
  define r where "r = (if s \<noteq> [] \<and> hd s = CHR ''-'' then tl s else s)"
  define sg where "sg = (if s \<noteq> [] \<and> hd s = CHR ''-'' then ''-'' else [])"
  have s: "s = sg @ r" by (cases s) (auto simp: r_def sg_def)
  from L have ip: "takeWhile is_digit r \<noteq> []" and rest: "dropWhile is_digit r \<noteq> []"
    and dot: "hd (dropWhile is_digit r) = CHR ''.''" and fp: "tl (dropWhile is_digit r) \<noteq> []"
    and fpd: "list_all is_digit (tl (dropWhile is_digit r))"
    by (simp_all add: is_signed_decimal_def Let_def r_def)
  have "dropWhile is_digit r = ''.'' @ tl (dropWhile is_digit r)"
    using rest dot by (cases "dropWhile is_digit r") auto
  then have "r = takeWhile is_digit r @ ''.'' @ tl (dropWhile is_digit r)"
    by (metis takeWhile_dropWhile_id)
  moreover have "list_all is_digit (takeWhile is_digit r)"
    unfolding list_all_iff by (auto dest: set_takeWhileD)
  ultimately have "s = sg @ takeWhile is_digit r @ ''.'' @ tl (dropWhile is_digit r) \<and> (sg = [] \<or> sg = ''-'') \<and>
        takeWhile is_digit r \<noteq> [] \<and> list_all is_digit (takeWhile is_digit r) \<and>
        tl (dropWhile is_digit r) \<noteq> [] \<and> list_all is_digit (tl (dropWhile is_digit r))"
    using s ip fp fpd by (simp add: sg_def)
  then show ?R by (intro exI)
next
  assume ?R
  then obtain sg ip fp where s: "s = sg @ ip @ ''.'' @ fp" and sg: "sg = [] \<or> sg = ''-''"
    and ip: "ip \<noteq> []" "list_all is_digit ip" and fp: "fp \<noteq> []" "list_all is_digit fp"
    by blast
  have hdip: "is_digit (hd ip)" using ip by (cases ip) auto
  then have hd_ne: "hd ip \<noteq> CHR ''-''" by auto
  have r: "(if s \<noteq> [] \<and> hd s = CHR ''-'' then tl s else s) = ip @ ''.'' @ fp"
    using sg s ip(1) hd_ne by (cases ip) auto
  have d1: "digits1 (ip @ (''.'' @ fp)) = Some (ip, ''.'' @ fp)"
    by (rule digits1_complete) (use ip in auto)
  then have "takeWhile is_digit (ip @ ''.'' @ fp) = ip" "dropWhile is_digit (ip @ ''.'' @ fp) = ''.'' @ fp"
    by (auto simp: digits1_def split: if_splits)
  then show ?L using ip fp by (simp add: is_signed_decimal_def r)
qed


lemma signed_decimal_SomeD:
  assumes "signed_decimal s = Some (g, r)"
  shows "is_signed_decimal g \<and> s = g @ r \<and> (r = [] \<or> \<not> is_digit (hd r))"
proof -
  define sg where "sg = (if s \<noteq> [] \<and> hd s = CHR ''-'' then ''-'' else [])"
  define r0 where "r0 = (if s \<noteq> [] \<and> hd s = CHR ''-'' then tl s else s)"
  have s: "s = sg @ r0" by (cases s) (auto simp: r0_def sg_def)
  have sg: "sg = [] \<or> sg = ''-''" by (simp add: sg_def)
  from assms obtain ip r1 where d1: "digits1 r0 = Some (ip, r1)"
    by (auto simp: signed_decimal_def Let_def r0_def split: option.splits)
  with assms obtain r2 where r1: "r1 = CHR ''.'' # r2"
    by (auto simp: signed_decimal_def Let_def r0_def split: option.splits list.splits if_splits)
  with assms d1 obtain fp where d2: "digits1 r2 = Some (fp, r)" and g: "g = sg @ ip @ ''.'' @ fp"
    by (auto simp: signed_decimal_def Let_def r0_def sg_def split: option.splits list.splits if_splits)
  note a = digits1_SomeD [OF d1] and b = digits1_SomeD [OF d2]
  have "s = g @ r" using s g a b r1 by simp
  moreover have "is_signed_decimal g"
    unfolding is_signed_decimal_iff using g sg a b by (intro exI [of _ sg] exI [of _ ip] exI [of _ fp]) simp
  ultimately show ?thesis using b by simp
qed

lemma signed_decimal_complete:
  assumes "is_signed_decimal g" "r = [] \<or> \<not> is_digit (hd r)"
  shows "signed_decimal (g @ r) = Some (g, r)"
proof -
  from assms(1) obtain sg ip fp where g: "g = sg @ ip @ ''.'' @ fp" and sg: "sg = [] \<or> sg = ''-''"
    and ip: "ip \<noteq> []" "list_all is_digit ip" and fp: "fp \<noteq> []" "list_all is_digit fp"
    unfolding is_signed_decimal_iff by blast
  have hdip: "is_digit (hd ip)" using ip by (cases ip) auto
  then have hd_ne: "hd ip \<noteq> CHR ''-''" by auto
  let ?s = "g @ r"
  have sgv: "(if ?s \<noteq> [] \<and> hd ?s = CHR ''-'' then ''-'' else []) = sg"
    using sg g ip(1) hd_ne by (cases ip) auto
  have r0: "(if ?s \<noteq> [] \<and> hd ?s = CHR ''-'' then tl ?s else ?s) = ip @ (CHR ''.'' # fp @ r)"
    using sg g ip(1) hd_ne by (cases ip) auto
  have d1: "digits1 (ip @ (CHR ''.'' # fp @ r)) = Some (ip, CHR ''.'' # fp @ r)"
    by (rule digits1_complete) (use ip in auto)
  have d2: "digits1 (fp @ r) = Some (fp, r)"
    by (rule digits1_complete) (use fp assms(2) in auto)
  show ?thesis
    unfolding signed_decimal_def sgv r0 Let_def d1 using d2 g by simp
qed

lemma is_signed_decimal_py_float:
  assumes "is_signed_decimal g"
  shows "\<exists>v. py_float g = Some v"
proof -
  from assms obtain sg ip fp where g: "g = sg @ ip @ ''.'' @ fp" and sg: "sg = [] \<or> sg = ''-''"
    and ip: "ip \<noteq> []" "list_all is_digit ip" and fp: "fp \<noteq> []" "list_all is_digit fp"
    unfolding is_signed_decimal_iff by blast
  have hdip: "is_digit (hd ip)" using ip by (cases ip) auto
  then have hd_ne: "hd ip \<noteq> CHR ''-''" "hd ip \<noteq> CHR ''+''" by (auto simp: is_digit_def)
  have r: "(if g \<noteq> [] \<and> (hd g = CHR ''-'' \<or> hd g = CHR ''+'') then tl g else g) = ip @ (CHR ''.'' # fp)"
    using sg g ip(1) hd_ne by (cases ip) auto
  have d1: "digits1 (ip @ (CHR ''.'' # fp)) = Some (ip, CHR ''.'' # fp)"
    by (rule digits1_complete) (use ip in auto)
  then have t: "takeWhile is_digit (ip @ (CHR ''.'' # fp)) = ip"
    and d: "dropWhile is_digit (ip @ (CHR ''.'' # fp)) = CHR ''.'' # fp"
    by (auto simp: digits1_def split: if_splits)
  show ?thesis
    unfolding py_float_def r Let_def t d using fp by simp
qed

lemma match_at_SomeD:
  assumes "match_at p s = Some (g1, g2)"
  shows "is_signed_decimal g1 \<and> is_signed_decimal g2 \<and>
         (\<exists>r. s = fst p @ g1 @ snd p @ g2 @ r \<and> (r = [] \<or> \<not> is_digit (hd r)))"
proof -
  from assms obtain r0 where l1: "literal (fst p) s = Some r0"
    by (auto simp: match_at_def split: option.splits)
  with assms obtain r1 where s1: "signed_decimal r0 = Some (g1, r1)"
    by (auto simp: match_at_def split: option.splits)
  with assms l1 obtain r2 where l2: "literal (snd p) r1 = Some r2"
    by (auto simp: match_at_def split: option.splits)
  with assms l1 s1 obtain r3 where s2: "signed_decimal r2 = Some (g2, r3)"
    by (auto simp: match_at_def split: option.splits)
  have a: "s = fst p @ r0" using l1
    by (auto simp: literal_def split: if_splits) (metis append_take_drop_id)
  have b: "r1 = snd p @ r2" using l2
    by (auto simp: literal_def split: if_splits) (metis append_take_drop_id)
  note c = signed_decimal_SomeD [OF s1] and d = signed_decimal_SomeD [OF s2]
  have "s = fst p @ g1 @ snd p @ g2 @ r3" using a b c d by simp
  then show ?thesis using c d by blast
qed

lemma literal_append [simp]: "literal l (l @ s) = Some s"
  by (simp add: literal_def)

lemma match_at_complete:
  assumes "is_signed_decimal g1" "is_signed_decimal g2" "r = [] \<or> \<not> is_digit (hd r)"
    and "snd p \<noteq> []" "\<not> is_digit (hd (snd p))"
  shows "match_at p (fst p @ g1 @ snd p @ g2 @ r) = Some (g1, g2)"
proof -
  have 1: "signed_decimal (g1 @ (snd p @ g2 @ r)) = Some (g1, snd p @ g2 @ r)"
    by (rule signed_decimal_complete) (use assms in auto)
  have 2: "signed_decimal (g2 @ r) = Some (g2, r)"
    by (rule signed_decimal_complete) (use assms in auto)
  show ?thesis by (simp add: match_at_def 1 2)
qed

lemma re_search_skip:
  assumes "\<forall>i<length pre. match_at p (drop i (pre @ s)) = None"
  shows "re_search p (pre @ s) = re_search p s"
  using assms
proof (induction pre)
  case Nil
  then show ?case by simp
next
  case (Cons c pre)
  from Cons.prems have 0: "match_at p (c # pre @ s) = None" by force
  have "\<forall>i<length pre. match_at p (drop i (pre @ s)) = None"
  proof (intro allI impI)
    fix i assume "i < length pre"
    then have "Suc i < length (c # pre)" by simp
    with Cons.prems have "match_at p (drop (Suc i) ((c # pre) @ s)) = None" by blast
    then show "match_at p (drop i (pre @ s)) = None" by simp
  qed
  with Cons.IH have "re_search p (pre @ s) = re_search p s" by blast
  with 0 show ?case by simp
qed

lemma re_search_head:
  assumes "match_at p s = Some g"
  shows "re_search p s = Some g"
  using assms by (cases s) auto

lemma re_search_SomeD:
  assumes "re_search p s = Some g"
  shows "\<exists>pre r. s = pre @ r \<and> match_at p r = Some g"
  using assms
proof (induction s)
  case Nil
  then show ?case by simp
next
  case (Cons c cs)
  show ?case
  proof (cases "match_at p (c # cs)")
    case (Some g')
    with Cons.prems have "g' = g" by simp
    with Some have "c # cs = [] @ (c # cs) \<and> match_at p (c # cs) = Some g" by simp
    then show ?thesis by blast
  next
    case None
    with Cons.prems have "re_search p cs = Some g" by simp
    with Cons.IH obtain pre r where "cs = pre @ r" "match_at p r = Some g" by blast
    then have "c # cs = (c # pre) @ r \<and> match_at p r = Some g" by simp
    then show ?thesis by blast
  qed
qed


text \<open>
  The matcher against the pattern read as a description of strings: a match at the head
  of a string is the first literal, a signed decimal, the second literal and a signed
  decimal, the last one taking every digit that follows; a search yields the match at
  the leftmost position that has one.
\<close>

lemma match_at_iff:
  assumes "snd p \<noteq> []" and "\<not> is_digit (hd (snd p))"
  shows "match_at p s = Some (g1, g2) \<longleftrightarrow>
           is_signed_decimal g1 \<and> is_signed_decimal g2 \<and>
           (\<exists>r. s = fst p @ g1 @ snd p @ g2 @ r \<and> (r = [] \<or> \<not> is_digit (hd r)))"
proof
  assume "match_at p s = Some (g1, g2)"
  then show "is_signed_decimal g1 \<and> is_signed_decimal g2 \<and>
           (\<exists>r. s = fst p @ g1 @ snd p @ g2 @ r \<and> (r = [] \<or> \<not> is_digit (hd r)))"
    by (rule match_at_SomeD)
next
  assume "is_signed_decimal g1 \<and> is_signed_decimal g2 \<and>
           (\<exists>r. s = fst p @ g1 @ snd p @ g2 @ r \<and> (r = [] \<or> \<not> is_digit (hd r)))"
  then obtain r where "is_signed_decimal g1" "is_signed_decimal g2"
    "s = fst p @ g1 @ snd p @ g2 @ r" "r = [] \<or> \<not> is_digit (hd r)"
    by blast
  with assms show "match_at p s = Some (g1, g2)"
    using match_at_complete [of g1 g2 r p] by simp
qed

lemma re_search_leftmost:
  assumes "re_search p s = Some g"
  shows "\<exists>pre r. s = pre @ r \<and> match_at p r = Some g \<and>
           (\<forall>i<length pre. match_at p (drop i s) = None)"
  using assms
proof (induction s)
  case Nil
  then have "[] = [] @ [] \<and> match_at p [] = Some g \<and>
      (\<forall>i<length ([]::string). match_at p (drop i []) = None)" by simp
  then show ?case by (intro exI [of _ "[]"])
next
  case (Cons c cs)
  show ?case
  proof (cases "match_at p (c # cs)")
    case (Some g')
    with Cons.prems have "c # cs = [] @ (c # cs) \<and> match_at p (c # cs) = Some g \<and>
      (\<forall>i<length ([]::string). match_at p (drop i (c # cs)) = None)" by simp
    then show ?thesis by (intro exI [of _ "[]"] exI [of _ "c # cs"])
  next
    case None
    with Cons.prems have "re_search p cs = Some g" by simp
    from Cons.IH [OF this] obtain pre where
      "\<exists>r. cs = pre @ r \<and> match_at p r = Some g \<and>
           (\<forall>i<length pre. match_at p (drop i cs) = None)" ..
    then obtain r where *: "cs = pre @ r \<and> match_at p r = Some g \<and>
           (\<forall>i<length pre. match_at p (drop i cs) = None)" ..
    from * have cs: "cs = pre @ r" by (rule conjunct1)
    from * have m: "match_at p r = Some g" by (rule conjunct1 [OF conjunct2])
    from * have l0: "\<forall>i<length pre. match_at p (drop i cs) = None"
      by (rule conjunct2 [OF conjunct2])
    note l = l0 [rule_format]
    have "\<forall>i<length (c # pre). match_at p (drop i (c # cs)) = None"
    proof (intro allI impI)
      fix i assume i: "i < length (c # pre)"
      show "match_at p (drop i (c # cs)) = None"
      proof (cases i)
        case 0
        with None show ?thesis by simp
      next
        case (Suc j)
        with i have "j < length pre" by simp
        from l [OF this] Suc show ?thesis by simp
      qed
    qed
    moreover have "c # cs = (c # pre) @ r" using cs by simp
    ultimately have "c # cs = (c # pre) @ r \<and> match_at p r = Some g \<and>
      (\<forall>i<length (c # pre). match_at p (drop i (c # cs)) = None)" using m by (intro conjI)
    then show ?thesis by (intro exI [of _ "c # pre"] exI [of _ r])
  qed
qed

lemmas extract_eval =
  extract_coordinates_def patterns_def match_at_def literal_def signed_decimal_def
  digits1_def is_digit_def py_float_def nat_of_digits_def digit_val_def
  round_binary64_def round_half_even_def pow2_def bit_length.simps Let_def

text \<open>
  The conversion at work: a literal that is no binary64 number is rounded to the nearest
  one, a tie goes to the even significand, the rounded number is what the format
  \<^verbatim>\<open>.6f\<close> prints, and a literal of 310 digits is too large and comes back as an
  infinity, which \<open>extract_coordinates\<close> returns like any other number.
\<close>

lemma floor_rat_numeral: "\<lfloor>numeral a / numeral b :: rat\<rfloor> = numeral a div numeral b"
  using floor_divide_of_int_eq [of "numeral a" "numeral b", where ?'a = rat] by simp

lemma float_tenth:
  "py_float ''0.1'' = Some (Finite False (3602879701896397 / 36028797018963968))"
  by (simp add: extract_eval floor_rat_numeral)

lemma float_tie_to_even:
  "py_float ''9007199254740993.0'' = Some (Finite False 9007199254740992)"
  by (simp add: extract_eval floor_rat_numeral)

lemma float_then_format: "map_option fmt6 (py_float ''0.0000035'') = Some ''0.000003''"
  by (simp add: extract_eval fixed6_def show_nat.simps digit_char_def floor_rat_numeral)

lemma extract_overflow:
  "extract_coordinates
     ''@9999999999999999999999999999999999999999999999999999999999999999999999999999999999999999999999999999999999999999999999999999999999999999999999999999999999999999999999999999999999999999999999999999999999999999999999999999999999999999999999999999999999999999999999999999999999999999999999999999999999999999999999.5,2.5'' =
   Inr (Infinity False, Finite False (5 / 2))"
  by (simp add: extract_eval floor_rat_numeral)

lemma try_patterns_first_match:
  assumes "first_match ps url = Some (g1, g2)"
  shows "\<exists>lat lon. py_float g1 = Some lat \<and> py_float g2 = Some lon \<and>
           try_patterns ps url = Some (lat, lon)"
  using assms
proof (induction ps)
  case Nil
  then show ?case by simp
next
  case (Cons p ps)
  show ?case
  proof (cases "re_search p url")
    case None
    with Cons show ?thesis by simp
  next
    case (Some g)
    with Cons.prems have g: "g = (g1, g2)" by simp
    from Some g obtain pre r where "match_at p r = Some (g1, g2)"
      using re_search_SomeD by blast
    then have "is_signed_decimal g1" "is_signed_decimal g2"
      using match_at_SomeD by blast+
    then obtain a b where "py_float g1 = Some a" "py_float g2 = Some b"
      using is_signed_decimal_py_float by blast
    with Some g show ?thesis by simp
  qed
qed

lemma try_patterns_SomeD:
  assumes "try_patterns ps url = Some (lat, lon)"
  shows "\<exists>g1 g2. first_match ps url = Some (g1, g2) \<and> py_float g1 = Some lat \<and> py_float g2 = Some lon"
  using assms
proof (induction ps)
  case Nil
  then show ?case by simp
next
  case (Cons p ps)
  show ?case
  proof (cases "re_search p url")
    case None
    with Cons show ?thesis by simp
  next
    case (Some g)
    obtain g1 g2 where g: "g = (g1, g2)" by (cases g)
    have fm: "first_match (p # ps) url = Some (g1, g2)" using Some g by simp
    from try_patterns_first_match [OF fm] obtain a b
      where ab: "py_float g1 = Some a" "py_float g2 = Some b" "try_patterns (p # ps) url = Some (a, b)"
      by blast
    with Cons.prems have "a = lat" "b = lon" by simp_all
    with fm ab show ?thesis by blast
  qed
qed

lemma first_match_SomeD:
  assumes "first_match ps url = Some (g1, g2)"
  shows "is_signed_decimal g1 \<and> is_signed_decimal g2 \<and>
         (\<exists>p pre r. p \<in> set ps \<and> url = pre @ fst p @ g1 @ snd p @ g2 @ r)"
  using assms
proof (induction ps)
  case Nil
  then show ?case by simp
next
  case (Cons p ps)
  show ?case
  proof (cases "re_search p url")
    case None
    with Cons have "is_signed_decimal g1 \<and> is_signed_decimal g2 \<and>
         (\<exists>q pre r. q \<in> set ps \<and> url = pre @ fst q @ g1 @ snd q @ g2 @ r)" by simp
    then show ?thesis by auto
  next
    case (Some g)
    with Cons.prems have g: "re_search p url = Some (g1, g2)" by simp
    then obtain pre r where u: "url = pre @ r" and m: "match_at p r = Some (g1, g2)"
      using re_search_SomeD by blast
    from match_at_SomeD [OF m] obtain r' where
      "is_signed_decimal g1" "is_signed_decimal g2" "r = fst p @ g1 @ snd p @ g2 @ r'" by blast
    with u have "is_signed_decimal g1 \<and> is_signed_decimal g2 \<and>
       p \<in> set (p # ps) \<and> url = pre @ fst p @ g1 @ snd p @ g2 @ r'" by simp
    then show ?thesis by blast
  qed
qed

subsection \<open>The parse-failure branch\<close>

text \<open>
  Claim C10. Whenever a pattern matches, both captured groups convert to a float, so the
  branch that skips a matching pattern whose groups do not convert is never taken: when
  the first pattern that matches somewhere in the URL captures \<open>g1\<close> and \<open>g2\<close>, both
  \<open>float(g1)\<close> and \<open>float(g2)\<close> succeed and \<open>extract_coordinates\<close> returns exactly these
  two numbers.
\<close>

theorem structural_match_always_converts:
  assumes "first_match patterns url = Some (g1, g2)"
  shows "\<exists>lat lon. py_float g1 = Some lat \<and> py_float g2 = Some lon \<and>
           extract_coordinates url = Inr (lat, lon)"
proof -
  from try_patterns_first_match [OF assms] obtain lat lon where
    "py_float g1 = Some lat" "py_float g2 = Some lon" "try_patterns patterns url = Some (lat, lon)"
    by blast
  then have "py_float g1 = Some lat \<and> py_float g2 = Some lon \<and> extract_coordinates url = Inr (lat, lon)"
    by (simp add: extract_coordinates_def)
  then show ?thesis by blast
qed

lemma first_match_place_url: "first_match patterns ''/place/!3d1.5!4d-2.25'' = Some (''1.5'', ''-2.25'')"
  by (simp add: extract_eval)

theorem structural_match_always_converts_witness:
  "first_match patterns ''/place/!3d1.5!4d-2.25'' = Some (''1.5'', ''-2.25'') \<and>
   (\<exists>lat lon. py_float ''1.5'' = Some lat \<and> py_float ''-2.25'' = Some lon \<and>
      extract_coordinates ''/place/!3d1.5!4d-2.25'' = Inr (lat, lon))"
  by (rule conjI [OF first_match_place_url structural_match_always_converts [OF first_match_place_url]])

subsection \<open>No range check\<close>

text \<open>
  Claim C7 says that a returned pair always satisfies |lat| \<le> 90 and |lon| \<le> 180, and
  that out-of-range numbers make the extraction fail. The code has no range check:
  for the URL below it returns latitude 91.5 and longitude 181.5.
\<close>

theorem out_of_range_counterexample:
  "extract_coordinates ''https://www.google.com/maps/@91.5,181.5,3a,75y'' =
     Inr (Finite False (183 / 2), Finite False (363 / 2)) \<and>
   \<not> in_range (Finite False (183 / 2), Finite False (363 / 2))"
  by (simp add: extract_eval in_range_def)

text \<open>
  Claim C7, amended. \<open>extract_coordinates\<close> checks no range: whenever it returns
  (lat, lon), the two values are exactly what \<open>float\<close> gives for the two signed decimals
  that the first matching pattern captures, whatever their magnitude; numbers out of
  range are returned, not rejected.
\<close>

theorem extract_returns_parsed_pair:
  assumes "extract_coordinates url = Inr (lat, lon)"
  shows "\<exists>g1 g2. first_match patterns url = Some (g1, g2) \<and>
           is_signed_decimal g1 \<and> is_signed_decimal g2 \<and>
           py_float g1 = Some lat \<and> py_float g2 = Some lon"
proof -
  from assms have "try_patterns patterns url = Some (lat, lon)"
    by (simp add: extract_coordinates_def split: option.splits)
  from try_patterns_SomeD [OF this] obtain g1 g2 where
    fm: "first_match patterns url = Some (g1, g2)" and f: "py_float g1 = Some lat" "py_float g2 = Some lon"
    by blast
  from first_match_SomeD [OF fm] have sd: "is_signed_decimal g1" "is_signed_decimal g2" by blast+
  with fm f show ?thesis by blast
qed

lemma extract_large_values:
  "extract_coordinates ''@123.5,-4567.25'' = Inr (Finite False (247 / 2), Finite True (18269 / 4))"
  by (simp add: extract_eval)

theorem extract_returns_parsed_pair_witness:
  "extract_coordinates ''@123.5,-4567.25'' = Inr (Finite False (247 / 2), Finite True (18269 / 4)) \<and>
   (\<exists>g1 g2. first_match patterns ''@123.5,-4567.25'' = Some (g1, g2) \<and>
           is_signed_decimal g1 \<and> is_signed_decimal g2 \<and>
           py_float g1 = Some (Finite False (247 / 2)) \<and> py_float g2 = Some (Finite True (18269 / 4)))"
  by (rule conjI [OF extract_large_values extract_returns_parsed_pair [OF extract_large_values]])

subsection \<open>Integer coordinates\<close>

lemma signed_decimal_decimal_head:
  assumes "signed_decimal s = Some (g, r)"
  shows "decimal_head s"
proof -
  define r0 where "r0 = (if s \<noteq> [] \<and> hd s = CHR ''-'' then tl s else s)"
  from assms obtain ip r1 where d1: "digits1 r0 = Some (ip, r1)"
    by (auto simp: signed_decimal_def Let_def r0_def split: option.splits)
  with assms obtain r2 where r1: "r1 = CHR ''.'' # r2"
    by (auto simp: signed_decimal_def Let_def r0_def split: option.splits list.splits if_splits)
  with assms d1 obtain fp where d2: "digits1 r2 = Some (fp, r)"
    by (auto simp: signed_decimal_def Let_def r0_def split: option.splits list.splits if_splits)
  from d1 have t: "takeWhile is_digit r0 \<noteq> []" and d: "dropWhile is_digit r0 = r1"
    by (auto simp: digits1_def split: if_splits)
  from d2 have "takeWhile is_digit r2 \<noteq> []"
    by (auto simp: digits1_def split: if_splits)
  then have r2: "r2 \<noteq> []" "is_digit (hd r2)"
    by (cases r2; auto split: if_splits)+
  have dh: "decimal_head s \<longleftrightarrow>
      takeWhile is_digit r0 \<noteq> [] \<and> dropWhile is_digit r0 \<noteq> [] \<and>
      hd (dropWhile is_digit r0) = CHR ''.'' \<and> tl (dropWhile is_digit r0) \<noteq> [] \<and>
      is_digit (hd (tl (dropWhile is_digit r0)))"
    unfolding decimal_head_def Let_def r0_def ..
  have dr: "dropWhile is_digit r0 = CHR ''.'' # r2" using d r1 by simp
  show ?thesis
    unfolding dh dr using t r2 by simp
qed

lemma integer_after_no_match:
  assumes "integer_after (fst p) s"
  shows "re_search p s = None"
  using assms
proof (induction s)
  case Nil
  show ?case
  proof (cases "match_at p []")
    case None
    then show ?thesis by simp
  next
    case (Some g)
    then obtain r g1 r1 where "literal (fst p) [] = Some r" "signed_decimal r = Some (g1, r1)"
      by (auto simp: match_at_def split: option.splits)
    with Nil signed_decimal_decimal_head show ?thesis by auto
  qed
next
  case (Cons c cs)
  from Cons.prems have tl: "integer_after (fst p) cs" by simp
  have "match_at p (c # cs) = None"
  proof (cases "match_at p (c # cs)")
    case None
    then show ?thesis .
  next
    case (Some g)
    then obtain r g1 r1 where "literal (fst p) (c # cs) = Some r" "signed_decimal r = Some (g1, r1)"
      by (auto simp: match_at_def split: option.splits)
    with Cons.prems signed_decimal_decimal_head show ?thesis by auto
  qed
  with Cons.IH [OF tl] show ?case by simp
qed

text \<open>
  Claim C9. A URL whose coordinates appear in integer form only, so that no occurrence
  of \<^verbatim>\<open>@\<close> and no occurrence of \<^verbatim>\<open>!3d\<close> is followed by a number with a fraction
  (\<^verbatim>\<open>@37,-122\<close>, \<^verbatim>\<open>!3d37!4d-122\<close>), is rejected with the extraction error, whatever
  else the URL holds: both patterns need digits on each side of a literal point in each
  number.
\<close>

theorem integer_coordinates_rejected:
  assumes "integer_after ''@'' url" and "integer_after ''!3d'' url"
  shows "extract_coordinates url =
           Inl (ValueError (''Could not extract valid coordinates from URL: '' @ url))"
proof -
  have 1: "re_search (''@'', '','') url = None"
    by (rule integer_after_no_match) (use assms(1) in simp)
  have 2: "re_search (''!3d'', ''!4d'') url = None"
    by (rule integer_after_no_match) (use assms(2) in simp)
  show ?thesis
    by (simp add: extract_coordinates_def patterns_def 1 2)
qed

lemma integer_url_at:
  "integer_after ''@''
     ''https://www.google.com/maps/@37,-122,3a,75y,291.41h,90t/data=!3d37!4d-122''"
  by (simp add: literal_def decimal_head_def is_digit_def)

lemma integer_url_3d:
  "integer_after ''!3d''
     ''https://www.google.com/maps/@37,-122,3a,75y,291.41h,90t/data=!3d37!4d-122''"
  by (simp add: literal_def decimal_head_def is_digit_def)

theorem integer_coordinates_rejected_witness:
  "extract_coordinates
     ''https://www.google.com/maps/@37,-122,3a,75y,291.41h,90t/data=!3d37!4d-122'' =
   Inl (ValueError (''Could not extract valid coordinates from URL: '' @
     ''https://www.google.com/maps/@37,-122,3a,75y,291.41h,90t/data=!3d37!4d-122''))"
  by (rule integer_coordinates_rejected [OF integer_url_at integer_url_3d])

subsection \<open>The \<^verbatim>\<open>@\<close> form\<close>

text \<open>
  Claim C3 says that a URL containing a substring \<^verbatim>\<open>@<lat>,<lon>\<close> of two signed
  decimals yields exactly that pair. The URL below contains \<^verbatim>\<open>@3.5,4.5\<close>, and the
  extraction returns (1.5, 2.5), the pair of an occurrence further left. (A digit
  right after the substring has the same effect: the group takes the longest run of
  digits.)
\<close>

theorem at_form_counterexample:
  "is_signed_decimal ''3.5'' \<and> is_signed_decimal ''4.5'' \<and>
   py_float ''3.5'' = Some (Finite False (7 / 2)) \<and> py_float ''4.5'' = Some (Finite False (9 / 2)) \<and>
   extract_coordinates (''@1.5,2.5/'' @ ''@'' @ ''3.5'' @ '','' @ ''4.5'' @ ''/'') =
     Inr (Finite False (3 / 2), Finite False (5 / 2)) \<and>
   extract_coordinates (''@1.5,2.5/'' @ ''@'' @ ''3.5'' @ '','' @ ''4.5'' @ ''/'') \<noteq>
     Inr (Finite False (7 / 2), Finite False (9 / 2))"
  by (simp add: extract_eval is_signed_decimal_def)

text \<open>
  Claim C3, amended. When a URL contains \<^verbatim>\<open>@<lat>,<lon>\<close> with two signed decimals, no
  match of the \<^verbatim>\<open>@\<close> pattern starts further left, and no digit follows the
  substring, then \<open>extract_coordinates\<close> returns exactly (float(lat), float(lon)). This
  holds whatever else the URL contains, a \<^verbatim>\<open>!3d<lat>!4d<lon>\<close> form included: the
  \<^verbatim>\<open>@\<close> pattern is tried first and its match wins.
\<close>

theorem at_form_leftmost_wins:
  assumes "is_signed_decimal s1" and "is_signed_decimal s2"
    and "post = [] \<or> \<not> is_digit (hd post)"
    and "\<forall>i<length pre. match_at (''@'', '','') (drop i (pre @ ''@'' @ s1 @ '','' @ s2 @ post)) = None"
  shows "\<exists>lat lon. py_float s1 = Some lat \<and> py_float s2 = Some lon \<and>
           extract_coordinates (pre @ ''@'' @ s1 @ '','' @ s2 @ post) = Inr (lat, lon)"
proof -
  let ?p = "(''@'', '','')"
  let ?r = "''@'' @ s1 @ '','' @ s2 @ post"
  have "match_at ?p (fst ?p @ s1 @ snd ?p @ s2 @ post) = Some (s1, s2)"
    by (rule match_at_complete) (use assms in auto)
  then have "re_search ?p ?r = Some (s1, s2)"
    by (intro re_search_head) simp
  moreover have "re_search ?p (pre @ ?r) = re_search ?p ?r"
    by (rule re_search_skip) (use assms(4) in simp)
  ultimately have "first_match patterns (pre @ ?r) = Some (s1, s2)"
    by (simp add: patterns_def)
  from try_patterns_first_match [OF this] obtain lat lon where
    "py_float s1 = Some lat" "py_float s2 = Some lon" "try_patterns patterns (pre @ ?r) = Some (lat, lon)"
    by blast
  then have "py_float s1 = Some lat \<and> py_float s2 = Some lon \<and>
     extract_coordinates (pre @ ?r) = Inr (lat, lon)"
    by (simp add: extract_coordinates_def)
  then show ?thesis by blast
qed

lemma lat_literal_ok: "is_signed_decimal ''37.774900''" by (simp add: is_signed_decimal_def is_digit_def)
lemma lon_literal_ok: "is_signed_decimal ''-122.419400''" by (simp add: is_signed_decimal_def is_digit_def)
lemma post_not_digit: "''/!3d1.5!4d2.5'' = [] \<or> \<not> is_digit (hd ''/!3d1.5!4d2.5'')" by (simp add: is_digit_def)
lemma no_earlier_match: "\<forall>i<length ''m/''. match_at (''@'', '','') (drop i (''m/'' @ ''@'' @ ''37.774900'' @ '','' @ ''-122.419400'' @ ''/!3d1.5!4d2.5'')) = None"
  by (simp add: less_Suc_eq match_at_def literal_def numeral_2_eq_2)

theorem at_form_leftmost_wins_witness:
  "\<exists>lat lon. py_float ''37.774900'' = Some lat \<and> py_float ''-122.419400'' = Some lon \<and>
     extract_coordinates (''m/'' @ ''@'' @ ''37.774900'' @ '','' @ ''-122.419400'' @ ''/!3d1.5!4d2.5'') = Inr (lat, lon)"
  by (rule at_form_leftmost_wins [OF lat_literal_ok lon_literal_ok post_not_digit no_earlier_match])


section \<open>Properties of the location resolver\<close>

lemma scan_components_last:
  "scan_components cs (c0, s0) =
     (if filter is_country cs = [] then c0 else Some (long_name (last (filter is_country cs))),
      if filter is_state cs = [] then s0 else Some (long_name (last (filter is_state cs))))"
  by (induction cs arbitrary: c0 s0) (simp_all add: is_country_def is_state_def)

lemma filter_empty_list_ex: "filter P xs = [] \<longleftrightarrow> \<not> list_ex P xs"
  by (simp add: filter_empty_conv list_ex_iff)

lemma http_ok_iff: "\<not> (400 \<le> code \<and> code < 600) \<longleftrightarrow> code < 400 \<or> 600 \<le> (code::nat)"
  by auto

subsection \<open>Which components are selected\<close>

text \<open>
  Claim C4 says that the resolver selects the first component tagged \<open>country\<close> and
  the first tagged \<open>administrative_area_level_1\<close>. The loop has no \<open>break\<close>, so a
  later component overwrites an earlier one: with two components of each tag the
  resolver returns the long names of the second ones, not (France, Bretagne).
\<close>

theorem last_component_counterexample:
  "get_location_info (Reply 200 \<lparr>status = Some ''OK'', results =
      [\<lparr>address_components =
         [\<lparr>long_name = ''France'', types = [''country'', ''political'']\<rparr>,
          \<lparr>long_name = ''Monaco'', types = [''country'', ''political'']\<rparr>,
          \<lparr>long_name = ''Bretagne'', types = [''administrative_area_level_1'']\<rparr>,
          \<lparr>long_name = ''Normandie'', types = [''administrative_area_level_1'']\<rparr>]\<rparr>]\<rparr>)
     = Inr (''Monaco'', ''Normandie'') \<and>
   (''Monaco'', ''Normandie'') \<noteq> (''France'', ''Bretagne'')"
  by (simp add: get_location_info_def)

text \<open>
  Claim C4, amended. For every successful answer (HTTP status outside 400 to 599,
  service status OK) with a non-empty results list, the resolver uses only the first
  result, and within its address components it selects the last component whose types
  include \<open>country\<close> and the last whose types include \<open>administrative_area_level_1\<close>;
  when both exist and their long names are not empty, it returns these two long names
  as the (country, state) pair.
\<close>

theorem resolver_returns_last_components:
  assumes "code < 400 \<or> 600 \<le> code"
    and "status data = Some ''OK''"
    and "results data = r # rs"
    and "list_ex is_country (address_components r)"
    and "list_ex is_state (address_components r)"
    and "long_name (last (filter is_country (address_components r))) \<noteq> []"
    and "long_name (last (filter is_state (address_components r))) \<noteq> []"
  shows "get_location_info (Reply code data) =
           Inr (long_name (last (filter is_country (address_components r))),
                long_name (last (filter is_state (address_components r))))"
proof -
  have c: "filter is_country (address_components r) \<noteq> []"
    using assms(4) by (simp add: filter_empty_list_ex)
  have s: "filter is_state (address_components r) \<noteq> []"
    using assms(5) by (simp add: filter_empty_list_ex)
  have ok: "\<not> (400 \<le> code \<and> code < 600)" using assms(1) by auto
  show ?thesis
    using ok assms(2,3,6,7) c s
    by (simp add: get_location_info_def scan_components_last)
qed

theorem resolver_returns_last_components_witness:
  "get_location_info (Reply 200 \<lparr>status = Some ''OK'', results =
      [\<lparr>address_components =
         [\<lparr>long_name = ''Mountain View'', types = [''locality'', ''political'']\<rparr>,
          \<lparr>long_name = ''California'', types = [''administrative_area_level_1'', ''political'']\<rparr>,
          \<lparr>long_name = ''United States'', types = [''country'', ''political'']\<rparr>]\<rparr>,
       \<lparr>address_components =
         [\<lparr>long_name = ''Canada'', types = [''country'', ''political'']\<rparr>]\<rparr>]\<rparr>)
     = Inr (''United States'', ''California'')"
  using resolver_returns_last_components [of 200
      "\<lparr>status = Some ''OK'', results =
      [\<lparr>address_components =
         [\<lparr>long_name = ''Mountain View'', types = [''locality'', ''political'']\<rparr>,
          \<lparr>long_name = ''California'', types = [''administrative_area_level_1'', ''political'']\<rparr>,
          \<lparr>long_name = ''United States'', types = [''country'', ''political'']\<rparr>]\<rparr>,
       \<lparr>address_components =
         [\<lparr>long_name = ''Canada'', types = [''country'', ''political'']\<rparr>]\<rparr>]\<rparr>"
      "\<lparr>address_components =
         [\<lparr>long_name = ''Mountain View'', types = [''locality'', ''political'']\<rparr>,
          \<lparr>long_name = ''California'', types = [''administrative_area_level_1'', ''political'']\<rparr>,
          \<lparr>long_name = ''United States'', types = [''country'', ''political'']\<rparr>]\<rparr>"
      "[\<lparr>address_components =
         [\<lparr>long_name = ''Canada'', types = [''country'', ''political'']\<rparr>]\<rparr>]"]
  by (simp add: is_country_def is_state_def)

subsection \<open>A missing component\<close>

text \<open>
  Claim C8. When the first result of a response has no component tagged
  \<open>administrative_area_level_1\<close>, or none tagged \<open>country\<close>, the resolution fails,
  whatever else the response holds, and never returns a partial label; when the
  request succeeded and the service status is OK, the failure is the error "Country or
  state information is missing", also when the other component is present.
\<close>

theorem missing_component_fails:
  assumes "results data = r # rs"
    and "\<not> list_ex is_state (address_components r) \<or> \<not> list_ex is_country (address_components r)"
  shows "(\<exists>e. get_location_info (Reply code data) = Inl e) \<and>
         ((code < 400 \<or> 600 \<le> code) \<and> status data = Some ''OK'' \<longrightarrow>
            get_location_info (Reply code data) =
              Inl (ValueError ''Country or state information is missing''))"
proof -
  have m: "filter is_state (address_components r) = [] \<or> filter is_country (address_components r) = []"
    using assms(2) by (simp add: filter_empty_list_ex)
  have scan: "\<And>c s. scan_components (address_components r) (None, None) = (c, s) \<Longrightarrow> c = None \<or> s = None"
    using m by (auto simp: scan_components_last)
  have main: "\<not> (400 \<le> code \<and> code < 600) \<Longrightarrow> status data = Some ''OK'' \<Longrightarrow>
     get_location_info (Reply code data) = Inl (ValueError ''Country or state information is missing'')"
    using assms(1) scan
    by (cases "scan_components (address_components r) (None, None)")
       (auto simp: get_location_info_def split: option.splits)
  have fails: "\<exists>e. get_location_info (Reply code data) = Inl e"
  proof (cases "400 \<le> code \<and> code < 600")
    case True
    then show ?thesis by (simp add: get_location_info_def)
  next
    case False
    show ?thesis
    proof (cases "status data = Some ''OK''")
      case True
      with False main show ?thesis by blast
    next
      case st: False
      with False show ?thesis by (simp add: get_location_info_def)
    qed
  qed
  from main fails show ?thesis by (auto simp: http_ok_iff)
qed


theorem missing_component_fails_witness:
  "get_location_info (Reply 200 \<lparr>status = Some ''OK'', results =
      [\<lparr>address_components =
         [\<lparr>long_name = ''Singapore'', types = [''country'', ''political'']\<rparr>]\<rparr>]\<rparr>)
     = Inl (ValueError ''Country or state information is missing'')"
  using missing_component_fails [of
      "\<lparr>status = Some ''OK'', results =
      [\<lparr>address_components =
         [\<lparr>long_name = ''Singapore'', types = [''country'', ''political'']\<rparr>]\<rparr>]\<rparr>"
      "\<lparr>address_components =
         [\<lparr>long_name = ''Singapore'', types = [''country'', ''political'']\<rparr>]\<rparr>"
      "[]" 200]
  by (simp add: is_country_def is_state_def)

subsection \<open>The failure modes\<close>

text \<open>
  Claim C6 says that the four failure modes are four distinct error kinds. Three of
  them are raised as the same exception class, \<open>ValueError\<close>: a service status
  other than OK, an empty results list and a missing component.
\<close>

theorem error_kinds_counterexample:
  "get_location_info (Reply 200 \<lparr>status = Some ''ZERO_RESULTS'', results = []\<rparr>) =
     Inl (ValueError ''Geocoding API error: ZERO_RESULTS'') \<and>
   get_location_info (Reply 200 \<lparr>status = Some ''OK'', results = []\<rparr>) =
     Inl (ValueError ''No results found for the given coordinates'') \<and>
   get_location_info (Reply 200 \<lparr>status = Some ''OK'', results = [\<lparr>address_components = []\<rparr>]\<rparr>) =
     Inl (ValueError ''Country or state information is missing'') \<and>
   exn_class (ValueError ''Geocoding API error: ZERO_RESULTS'') =
     exn_class (ValueError ''No results found for the given coordinates'') \<and>
   exn_class (ValueError ''No results found for the given coordinates'') =
     exn_class (ValueError ''Country or state information is missing'')"
  by (simp add: get_location_info_def)

text \<open>
  Claim C6, amended. A request that gets no answer surfaces as the HTTP library's
  exception, and an HTTP status from 400 to 599 as its \<open>HTTPError\<close> with the code. The
  other three failures are all \<open>ValueError\<close> and differ in the message alone:
  "Geocoding API error: " followed by the service status, "No results found for the
  given coordinates", and "Country or state information is missing". The three
  messages are pairwise different, whatever the service status is.
\<close>

theorem resolver_failures_differ_by_message:
  "get_location_info NoReply = Inl RequestException \<and>
   (400 \<le> code \<and> code < 600 \<longrightarrow> get_location_info (Reply code data) = Inl (HTTPError code)) \<and>
   ((code < 400 \<or> 600 \<le> code) \<and> status data \<noteq> Some ''OK'' \<longrightarrow>
      get_location_info (Reply code data) =
        Inl (ValueError (''Geocoding API error: '' @ (case status data of None \<Rightarrow> ''None'' | Some s \<Rightarrow> s)))) \<and>
   ((code < 400 \<or> 600 \<le> code) \<and> status data = Some ''OK'' \<and> results data = [] \<longrightarrow>
      get_location_info (Reply code data) =
        Inl (ValueError ''No results found for the given coordinates'')) \<and>
   ((code < 400 \<or> 600 \<le> code) \<and> status data = Some ''OK'' \<and> results data = r # rs \<and>
    (\<not> list_ex is_country (address_components r) \<or> \<not> list_ex is_state (address_components r)) \<longrightarrow>
      get_location_info (Reply code data) =
        Inl (ValueError ''Country or state information is missing'')) \<and>
   ValueError (''Geocoding API error: '' @ s) \<noteq> ValueError ''No results found for the given coordinates'' \<and>
   ValueError (''Geocoding API error: '' @ s) \<noteq> ValueError ''Country or state information is missing'' \<and>
   ValueError ''No results found for the given coordinates'' \<noteq>
     ValueError ''Country or state information is missing''"
proof -
  have 1: "get_location_info NoReply = Inl RequestException"
    by (simp add: get_location_info_def)
  have 2: "400 \<le> code \<and> code < 600 \<longrightarrow> get_location_info (Reply code data) = Inl (HTTPError code)"
    by (simp add: get_location_info_def)
  have 3: "(code < 400 \<or> 600 \<le> code) \<and> status data \<noteq> Some ''OK'' \<longrightarrow>
      get_location_info (Reply code data) =
        Inl (ValueError (''Geocoding API error: '' @ (case status data of None \<Rightarrow> ''None'' | Some s \<Rightarrow> s)))"
    by (auto simp: get_location_info_def)
  have 4: "(code < 400 \<or> 600 \<le> code) \<and> status data = Some ''OK'' \<and> results data = [] \<longrightarrow>
      get_location_info (Reply code data) =
        Inl (ValueError ''No results found for the given coordinates'')"
    by (auto simp: get_location_info_def)
  have 5: "(code < 400 \<or> 600 \<le> code) \<and> status data = Some ''OK'' \<and> results data = r # rs \<and>
    (\<not> list_ex is_country (address_components r) \<or> \<not> list_ex is_state (address_components r)) \<longrightarrow>
      get_location_info (Reply code data) =
        Inl (ValueError ''Country or state information is missing'')"
  proof (intro impI)
    assume a: "(code < 400 \<or> 600 \<le> code) \<and> status data = Some ''OK'' \<and> results data = r # rs \<and>
      (\<not> list_ex is_country (address_components r) \<or> \<not> list_ex is_state (address_components r))"
    then have m: "filter is_state (address_components r) = [] \<or> filter is_country (address_components r) = []"
      by (auto simp: filter_empty_list_ex)
    have ok: "\<not> (400 \<le> code \<and> code < 600)" using a by auto
    show "get_location_info (Reply code data) = Inl (ValueError ''Country or state information is missing'')"
      using a ok m by (auto simp: get_location_info_def scan_components_last)
  qed
  have 6: "ValueError (''Geocoding API error: '' @ s) \<noteq> ValueError ''No results found for the given coordinates''"
    by simp
  have 7: "ValueError (''Geocoding API error: '' @ s) \<noteq> ValueError ''Country or state information is missing''"
    by simp
  have 8: "ValueError ''No results found for the given coordinates'' \<noteq>
     ValueError ''Country or state information is missing''"
    by simp
  from 1 2 3 4 5 6 7 8 show ?thesis by (intro conjI)
qed

theorem resolver_failures_differ_by_message_witness:
  "get_location_info (Reply 503 \<lparr>status = None, results = []\<rparr>) = Inl (HTTPError 503) \<and>
   get_location_info (Reply 200 \<lparr>status = Some ''REQUEST_DENIED'', results = []\<rparr>) =
     Inl (ValueError ''Geocoding API error: REQUEST_DENIED'') \<and>
   get_location_info (Reply 200 \<lparr>status = Some ''OK'', results = []\<rparr>) =
     Inl (ValueError ''No results found for the given coordinates'') \<and>
   get_location_info (Reply 200 \<lparr>status = Some ''OK'', results =
      [\<lparr>address_components = [\<lparr>long_name = ''Singapore'', types = [''country'']\<rparr>]\<rparr>]\<rparr>) =
     Inl (ValueError ''Country or state information is missing'')"
  using resolver_failures_differ_by_message [of 503 "\<lparr>status = None, results = []\<rparr>"]
    resolver_failures_differ_by_message [of 200 "\<lparr>status = Some ''REQUEST_DENIED'', results = []\<rparr>"]
    resolver_failures_differ_by_message [of 200 "\<lparr>status = Some ''OK'', results = []\<rparr>"]
    resolver_failures_differ_by_message [of 200 "\<lparr>status = Some ''OK'', results =
      [\<lparr>address_components = [\<lparr>long_name = ''Singapore'', types = [''country'']\<rparr>]\<rparr>]\<rparr>"
      "\<lparr>address_components = [\<lparr>long_name = ''Singapore'', types = [''country'']\<rparr>]\<rparr>" "[]"]
  by (simp add: is_country_def is_state_def)


section \<open>Properties of the document store\<close>

lemma split_lines_nonempty [simp]: "split_lines x \<noteq> []"
  by (induction x) (auto split: list.splits)

lemma split_lines_no_NL: "NL \<notin> set x \<Longrightarrow> split_lines x = [x]"
  by (induction x) auto

lemma split_lines_append_NL: "split_lines (x @ NL # y) = split_lines x @ split_lines y"
proof (induction x)
  case Nil
  then show ?case by simp
next
  case (Cons c x)
  then show ?case by (cases "split_lines x") auto
qed

lemma split_lines_prefix:
  "NL \<notin> set x \<Longrightarrow> split_lines (x @ y) = (x @ hd (split_lines y)) # tl (split_lines y)"
proof (induction x)
  case Nil
  then show ?case by simp
next
  case (Cons c x)
  then show ?case by auto
qed

lemma split_lines_no_NL_in_line: "l \<in> set (split_lines x) \<Longrightarrow> NL \<notin> set l"
proof (induction x arbitrary: l)
  case Nil
  then show ?case by simp
next
  case (Cons c x)
  show ?case
  proof (cases "c = NL")
    case True
    with Cons show ?thesis by auto
  next
    case False
    obtain l0 ls where sl: "split_lines x = l0 # ls" by (cases "split_lines x") auto
    with Cons.prems False have "l = c # l0 \<or> l \<in> set ls" by auto
    then show ?thesis
    proof
      assume "l = c # l0"
      moreover have "NL \<notin> set l0" using Cons.IH [of l0] sl by simp
      ultimately show ?thesis using False by auto
    next
      assume "l \<in> set ls"
      then show ?thesis using Cons.IH [of l] sl by simp
    qed
  qed
qed

lemma span_append [simp]: "doc_span (X @ Y) = doc_span X + doc_span Y"
  by (induction X) auto

lemma span_lines: "doc_span (map (Pair sty) (split_lines x)) = length x + 1"
proof (induction x)
  case Nil
  then show ?case by simp
next
  case (Cons c x)
  then show ?case by (cases "split_lines x") auto
qed

lemma insert_at_decomp:
  assumes "j \<le> length (snd p)"
  shows "insert_at (doc_span A + j) txt (A @ p # B) =
           Some (A @ map (Pair (fst p)) (split_lines (take j (snd p) @ txt @ drop j (snd p))) @ B)"
  using assms by (induction A) auto

lemma insert_at_SomeD:
  assumes "insert_at k txt d = Some d'"
  shows "\<exists>A p B j. d = A @ p # B \<and> k = doc_span A + j \<and> j \<le> length (snd p) \<and>
           d' = A @ map (Pair (fst p)) (split_lines (take j (snd p) @ txt @ drop j (snd p))) @ B"
  using assms
proof (induction d arbitrary: k d')
  case Nil
  then show ?case by simp
next
  case (Cons q d)
  show ?case
  proof (cases "k \<le> length (snd q)")
    case True
    with Cons.prems have "d' = map (Pair (fst q)) (split_lines (take k (snd q) @ txt @ drop k (snd q))) @ d"
      by simp
    with True have "q # d = [] @ q # d \<and> k = doc_span [] + k \<and> k \<le> length (snd q) \<and>
       d' = [] @ map (Pair (fst q)) (split_lines (take k (snd q) @ txt @ drop k (snd q))) @ d" by simp
    then show ?thesis by blast
  next
    case False
    with Cons.prems obtain d0 where d0: "insert_at (k - length (snd q) - 1) txt d = Some d0" and d': "d' = q # d0"
      by auto
    from Cons.IH [OF d0] obtain A p B j where
      "d = A @ p # B" "k - length (snd q) - 1 = doc_span A + j" "j \<le> length (snd p)"
      "d0 = A @ map (Pair (fst p)) (split_lines (take j (snd p) @ txt @ drop j (snd p))) @ B"
      by blast
    with False d' have "q # d = (q # A) @ p # B \<and> k = doc_span (q # A) + j \<and> j \<le> length (snd p) \<and>
       d' = (q # A) @ map (Pair (fst p)) (split_lines (take j (snd p) @ txt @ drop j (snd p))) @ B"
      by simp
    then show ?thesis by blast
  qed
qed

lemma restyle_append:
  "restyle_from i a b sty (X @ Y) = restyle_from i a b sty X @ restyle_from (i + doc_span X) a b sty Y"
  by (induction X arbitrary: i) (simp_all add: add.assoc)

lemma restyle_before: "i + doc_span X \<le> a \<Longrightarrow> restyle_from i a b sty X = X"
  by (induction X arbitrary: i) auto

lemma restyle_after: "b \<le> i \<Longrightarrow> restyle_from i a b sty X = X"
  by (induction X arbitrary: i) auto

lemma restyle_all_after_start:
  "a < i \<Longrightarrow> i + doc_span M \<le> b \<Longrightarrow> restyle_from i a b sty M = map (\<lambda>p. (sty, snd p)) M"
  by (induction M arbitrary: i) auto

lemma restyle_all:
  assumes "a < i + length (snd p) + 1" "i + doc_span (p # M) \<le> b"
  shows "restyle_from i a b sty (p # M) = map (\<lambda>q. (sty, snd q)) (p # M)"
proof -
  have "restyle_from (i + length (snd p) + 1) a b sty M = map (\<lambda>q. (sty, snd q)) M"
    by (rule restyle_all_after_start) (use assms in auto)
  then show ?thesis using assms by auto
qed

lemma map_snd_restyle [simp]: "map snd (restyle_from i a b sty d) = map snd d"
  by (induction d arbitrary: i) auto

lemma span_restyle [simp]: "doc_span (restyle_from i a b sty d) = doc_span d"
  by (induction d arbitrary: i) auto

lemma wf_doc_iff: "wf_doc d \<longleftrightarrow> (\<forall>t \<in> set (map snd d). NL \<notin> set t)"
  by (auto simp: wf_doc_def list_all_iff)

lemma wf_doc_restyle [simp]: "wf_doc (restyle_from i a b sty d) = wf_doc d"
  by (simp add: wf_doc_iff)

lemma wf_doc_append [simp]: "wf_doc (X @ Y) \<longleftrightarrow> wf_doc X \<and> wf_doc Y"
  by (simp add: wf_doc_def)

lemma wf_doc_Cons [simp]: "wf_doc (p # X) \<longleftrightarrow> NL \<notin> set (snd p) \<and> wf_doc X"
  by (simp add: wf_doc_def)

lemma wf_doc_Nil [simp]: "wf_doc []"
  by (simp add: wf_doc_def)

lemma wf_doc_lines [simp]: "wf_doc (map (Pair sty) (split_lines x))"
  by (auto simp: wf_doc_iff dest: split_lines_no_NL_in_line)

text \<open>Inserting a text that ends in a newline, then styling the range of that text.\<close>

lemma insert_restyle_at:
  assumes wf: "wf_doc (A @ p # B)" and j: "j \<le> length (snd p)" and k: "k = doc_span A + j"
  shows "insert_at k (h @ [NL]) (A @ p # B) =
           Some (A @ map (Pair (fst p)) (split_lines (take j (snd p) @ h)) @ (fst p, drop j (snd p)) # B)"
    and "restyle_from 1 (k + 1) (k + 1 + (length h + 1)) sty
           (A @ map (Pair (fst p)) (split_lines (take j (snd p) @ h)) @ (fst p, drop j (snd p)) # B) =
         A @ map (Pair sty) (split_lines (take j (snd p) @ h)) @ (fst p, drop j (snd p)) # B"
proof -
  let ?pre = "take j (snd p)" and ?post = "drop j (snd p)"
  let ?M = "map (Pair (fst p)) (split_lines (?pre @ h))"
  from wf have nl: "NL \<notin> set (snd p)" by simp
  then have npre: "NL \<notin> set ?pre" and npost: "NL \<notin> set ?post"
    by (auto dest: in_set_takeD in_set_dropD)
  have "split_lines (?pre @ (h @ [NL]) @ ?post) = split_lines (?pre @ h) @ [?post]"
    using split_lines_append_NL [of "?pre @ h" ?post] npost by (simp add: split_lines_no_NL)
  then show "insert_at k (h @ [NL]) (A @ p # B) = Some (A @ ?M @ (fst p, ?post) # B)"
    unfolding k using insert_at_decomp [OF j, of A "h @ [NL]" B] by simp
  obtain l ls where sl: "split_lines (?pre @ h) = (?pre @ l) # ls"
    using split_lines_prefix [OF npre, of h] by blast
  have lenpre: "length ?pre = j" using j by simp
  have spanM: "doc_span ?M = j + length h + 1"
    using span_lines [of "fst p" "?pre @ h"] lenpre by simp
  have M: "?M = (fst p, ?pre @ l) # map (Pair (fst p)) ls" using sl by simp
  have rM: "restyle_from (1 + doc_span A) (k + 1) (k + 1 + (length h + 1)) sty ?M =
              map (\<lambda>q. (sty, snd q)) ?M"
    unfolding M
  proof (rule restyle_all)
    show "k + 1 < 1 + doc_span A + length (snd (fst p, ?pre @ l)) + 1"
      using k lenpre by simp
    show "1 + doc_span A + doc_span ((fst p, ?pre @ l) # map (Pair (fst p)) ls) \<le> k + 1 + (length h + 1)"
      using spanM k unfolding M by simp
  qed
  have rM2: "map (\<lambda>q. (sty, snd q)) ?M = map (Pair sty) (split_lines (?pre @ h))"
    by (simp add: comp_def)
  have rA: "restyle_from 1 (k + 1) (k + 1 + (length h + 1)) sty A = A"
    by (rule restyle_before) (use k in simp)
  have rB: "restyle_from (1 + doc_span A + doc_span ?M) (k + 1) (k + 1 + (length h + 1)) sty ((fst p, ?post) # B)
              = (fst p, ?post) # B"
    by (rule restyle_after) (use spanM k in simp)
  show "restyle_from 1 (k + 1) (k + 1 + (length h + 1)) sty (A @ ?M @ (fst p, ?post) # B) =
          A @ map (Pair sty) (split_lines (?pre @ h)) @ (fst p, ?post) # B"
    by (simp only: restyle_append rA rM rM2 rB)
qed

lemma insert_then_restyle:
  assumes wf: "wf_doc d" and ins: "insert_at k (h @ [NL]) d = Some d'"
  shows "\<exists>A p B j. d = A @ p # B \<and> j \<le> length (snd p) \<and>
           restyle_from 1 (k + 1) (k + 1 + (length h + 1)) sty d' =
             A @ map (Pair sty) (split_lines (take j (snd p) @ h)) @ (fst p, drop j (snd p)) # B"
proof -
  from insert_at_SomeD [OF ins] obtain A p B j where
    d: "d = A @ p # B" and k: "k = doc_span A + j" and j: "j \<le> length (snd p)"
    by blast
  from wf d have wf': "wf_doc (A @ p # B)" by simp
  from insert_restyle_at(1) [OF wf' j k, of h] ins d
  have d': "d' = A @ map (Pair (fst p)) (split_lines (take j (snd p) @ h)) @ (fst p, drop j (snd p)) # B"
    by simp
  from insert_restyle_at(2) [OF wf' j k, of h sty] d' d j show ?thesis by blast
qed

section \<open>Properties of the formatting and of \<open>strip\<close>\<close>

lemma plain_char_not_space: "plain_char c \<Longrightarrow> \<not> is_space c"
  by (auto simp: plain_char_def is_space_def)

lemma plain_char_not_NL: "plain_char c \<Longrightarrow> c \<noteq> NL"
  by (auto simp: plain_char_def)

lemma digit_char_plain: "d < 10 \<Longrightarrow> plain_char (digit_char d)"
proof -
  assume "d < 10"
  then have "d \<in> {0, 1, 2, 3, 4, 5, 6, 7, 8, 9}" by auto
  then show ?thesis by (auto simp: digit_char_def plain_char_def)
qed

lemma show_nat_plain: "c \<in> set (show_nat n) \<Longrightarrow> plain_char c"
proof (induction n arbitrary: c rule: show_nat.induct)
  case (1 n)
  show ?case
  proof (cases "n < 10")
    case True
    with "1.prems" show ?thesis by (simp add: show_nat.simps [of n] digit_char_plain)
  next
    case False
    with "1.prems" have "c \<in> set (show_nat (n div 10)) \<or> c = digit_char (n mod 10)"
      by (auto simp add: show_nat.simps [of n])
    then show ?thesis using "1.IH" [OF False] by (auto intro: digit_char_plain)
  qed
qed

lemma show_nat_nonempty: "show_nat n \<noteq> []"
  by (simp add: show_nat.simps [of n])

lemma fixed6_plain: "c \<in> set (fixed6 m) \<Longrightarrow> plain_char c"
  by (auto simp: fixed6_def Let_def dest: show_nat_plain intro: digit_char_plain)
     (simp add: plain_char_def)

lemma fixed6_nonempty: "fixed6 m \<noteq> []"
  by (simp add: fixed6_def Let_def)

lemma fmt6_plain: "c \<in> set (fmt6 x) \<Longrightarrow> plain_char c"
  by (cases x) (auto dest: fixed6_plain simp: plain_char_def split: if_splits)

lemma fmt6_nonempty: "fmt6 x \<noteq> []"
  by (cases x) (auto simp: fixed6_nonempty)

lemma search_text_no_NL: "NL \<notin> set (search_text lat lon)"
  by (auto simp: search_text_def dest!: fmt6_plain plain_char_not_NL)

lemma search_text_nonempty: "search_text lat lon \<noteq> []"
  by (simp add: search_text_def fmt6_nonempty)

lemma search_text_hd: "\<not> is_space (hd (search_text lat lon))"
proof -
  have "hd (search_text lat lon) = hd (fmt6 lat)"
    by (simp add: search_text_def fmt6_nonempty)
  moreover have "hd (fmt6 lat) \<in> set (fmt6 lat)" by (simp add: fmt6_nonempty)
  ultimately show ?thesis using fmt6_plain plain_char_not_space by metis
qed

lemma search_text_last: "\<not> is_space (last (search_text lat lon))"
proof -
  have "last (search_text lat lon) = last (fmt6 lon)"
    by (simp add: search_text_def fmt6_nonempty)
  moreover have "last (fmt6 lon) \<in> set (fmt6 lon)" by (simp add: fmt6_nonempty)
  ultimately show ?thesis using fmt6_plain plain_char_not_space by metis
qed

lemma is_space_NL [simp]: "is_space NL"
  by (simp add: is_space_def)

lemma strip_id:
  assumes "s \<noteq> []" "\<not> is_space (hd s)" "\<not> is_space (last s)"
  shows "strip s = s"
proof -
  have 1: "dropWhile is_space s = s" using assms by (cases s) auto
  have "rev s \<noteq> []" "hd (rev s) = last s" using assms(1) by (simp_all add: hd_rev)
  then have 2: "dropWhile is_space (rev s) = rev s"
    using assms(3) by (metis dropWhile.simps(2) list.collapse)
  show ?thesis by (simp add: strip_def 1 2)
qed

lemma strip_append_NL: "strip (t @ [NL]) = strip t"
proof (cases "dropWhile is_space t = []")
  case True
  then have "\<forall>c \<in> set t. is_space c" by (simp add: dropWhile_eq_Nil_conv)
  then have e: "dropWhile is_space (t @ [NL]) = []" by (simp add: dropWhile_eq_Nil_conv)
  show ?thesis by (simp only: strip_def True e)
next
  case False
  then obtain c where c: "c \<in> set t" "\<not> is_space c" by (auto simp: dropWhile_eq_Nil_conv)
  then have "dropWhile is_space (t @ [NL]) = dropWhile is_space t @ [NL]"
    by (simp add: dropWhile_append1)
  then show ?thesis by (simp add: strip_def)
qed

lemma strip_coord_text: "strip (search_text lat lon @ [NL]) = search_text lat lon"
  by (simp add: strip_append_NL strip_id search_text_nonempty search_text_hd search_text_last)

lemma sublist_strip: "sublist (strip t) t"
proof -
  have a: "suffix (dropWhile is_space t) t" by (rule suffix_dropWhile)
  have "suffix (dropWhile is_space (rev (dropWhile is_space t))) (rev (dropWhile is_space t))"
    by (rule suffix_dropWhile)
  then have "prefix (strip t) (dropWhile is_space t)"
    unfolding strip_def by (metis rev_rev_ident suffix_to_prefix)
  with a show ?thesis by (meson prefix_imp_sublist sublist_order.order.trans suffix_imp_sublist)
qed

section \<open>Properties of the document writer\<close>

lemma paragraph_text_single [simp]: "paragraph_text [TextRun (Some x)] = x"
  by (simp add: paragraph_text_def)

lemma location_exists_body_from:
  "location_exists_in_doc (body_from i d) lat lon url \<longleftrightarrow>
     list_ex (\<lambda>p. sublist (search_text lat lon) (snd p @ [NL]) \<or> sublist url (snd p @ [NL])) d"
  by (induction d arbitrary: i) auto

lemma location_exists_body_content:
  "location_exists_in_doc (body_content d) lat lon url \<longleftrightarrow>
     list_ex (\<lambda>p. sublist (search_text lat lon) (snd p @ [NL]) \<or> sublist url (snd p @ [NL])) d"
  by (simp add: body_content_def location_exists_body_from)

lemma sublist_append_right: "sublist xs ys \<Longrightarrow> sublist xs (ys @ zs)"
  by (auto simp: sublist_def) (metis append.assoc)

lemma sublist_append_left: "sublist xs ys \<Longrightarrow> sublist xs (zs @ ys)"
  by (auto simp: sublist_def) (metis append.assoc)

lemma not_dup_no_coordinate_paragraphs:
  assumes "\<not> location_exists_in_doc (body_content d) lat lon url"
  shows "coordinate_paragraphs d lat lon = []"
  using assms
  by (auto simp: location_exists_body_content coordinate_paragraphs_def filter_empty_conv list_ex_iff
           dest: sublist_append_right)

lemma batch_update_append:
  "batch_update (xs @ ys) d =
     (case batch_update xs d of None \<Rightarrow> None | Some d' \<Rightarrow> batch_update ys d')"
  by (induction xs arbitrary: d) (auto split: option.splits)

lemma coordinate_paragraphs_append [simp]:
  "coordinate_paragraphs (X @ Y) lat lon = coordinate_paragraphs X lat lon @ coordinate_paragraphs Y lat lon"
  by (simp add: coordinate_paragraphs_def)

lemma coordinate_paragraphs_Cons:
  "coordinate_paragraphs (p # X) lat lon =
     (if fst p = NORMAL_TEXT \<and> sublist (search_text lat lon) (snd p) then [p] else []) @
     coordinate_paragraphs X lat lon"
  by (simp add: coordinate_paragraphs_def)

lemma coordinate_paragraphs_heading:
  "sty \<noteq> NORMAL_TEXT \<Longrightarrow> coordinate_paragraphs (map (Pair sty) ls) lat lon = []"
  by (simp add: coordinate_paragraphs_def filter_empty_conv)

lemma wf_doc_insert:
  assumes "wf_doc d" "insert_at k txt d = Some d'"
  shows "wf_doc d'"
proof -
  from insert_at_SomeD [OF assms(2)] obtain A p B j where
    "d = A @ p # B" "d' = A @ map (Pair (fst p)) (split_lines (take j (snd p) @ txt @ drop j (snd p))) @ B"
    by blast
  with assms(1) show ?thesis by simp
qed

text \<open>A heading and its style leave the document without a coordinate paragraph.\<close>

lemma heading_step:
  assumes wf: "wf_doc d" and none: "coordinate_paragraphs d lat lon = []"
    and sty: "sty \<noteq> NORMAL_TEXT" and b: "b = i + length h + 1"
    and run: "batch_update [InsertText i (h @ [NL]), UpdateParagraphStyle i b sty] d = Some d'"
  shows "wf_doc d' \<and> coordinate_paragraphs d' lat lon = []"
proof -
  from run have i: "i \<noteq> 0" by (auto split: if_splits)
  from run i obtain d0 where ins: "insert_at (i - 1) (h @ [NL]) d = Some d0"
    and d': "d' = restyle_from 1 i b sty d0"
    by (auto split: option.splits if_splits)
  have ib: "i = (i - 1) + 1" "b = (i - 1) + 1 + (length h + 1)" using i b by simp_all
  from insert_then_restyle [OF wf ins, of sty] obtain A p B j where
    d: "d = A @ p # B" and j: "j \<le> length (snd p)"
    and r: "restyle_from 1 i b sty d0 =
              A @ map (Pair sty) (split_lines (take j (snd p) @ h)) @ (fst p, drop j (snd p)) # B"
    using ib by metis
  have wf0: "wf_doc d0" by (rule wf_doc_insert [OF wf ins])
  have wf': "wf_doc d'" using wf0 d' by simp
  from none d have A: "coordinate_paragraphs A lat lon = []" and B: "coordinate_paragraphs B lat lon = []"
    and p: "\<not> (fst p = NORMAL_TEXT \<and> sublist (search_text lat lon) (snd p))"
    by (auto simp: coordinate_paragraphs_Cons split: if_splits)
  have "sublist (drop j (snd p)) (snd p)" by simp
  with p have p': "\<not> (fst p = NORMAL_TEXT \<and> sublist (search_text lat lon) (drop j (snd p)))"
    using sublist_order.order.trans by blast
  have "coordinate_paragraphs d' lat lon = []"
    unfolding d' r using A B p' sty
    by (simp add: coordinate_paragraphs_Cons coordinate_paragraphs_heading)
  with wf' show ?thesis by simp
qed

text \<open>The three requests for the coordinate line leave exactly one coordinate paragraph.\<close>

lemma coord_step:
  assumes wf: "wf_doc d" and none: "coordinate_paragraphs d lat lon = []"
    and run: "batch_update (coord_requests i (search_text lat lon @ [NL]) url) d = Some d'"
  shows "length (coordinate_paragraphs d' lat lon) = 1 \<and>
         location_exists_in_doc (body_content d') lat lon url'"
proof -
  let ?S = "search_text lat lon"
  from run have i: "i \<noteq> 0" by (auto simp: coord_requests_def split: if_splits)
  from run i obtain d0 where ins: "insert_at (i - 1) (?S @ [NL]) d = Some d0"
    and d': "d' = restyle_from 1 i (i + length (?S @ [NL])) NORMAL_TEXT d0"
    by (auto simp: coord_requests_def split: option.splits if_splits)
  have ib: "i = (i - 1) + 1" "i + length (?S @ [NL]) = (i - 1) + 1 + (length ?S + 1)" using i by simp_all
  from insert_then_restyle [OF wf ins, of NORMAL_TEXT] obtain A p B j where
    d: "d = A @ p # B" and j: "j \<le> length (snd p)"
    and r: "restyle_from 1 i (i + length (?S @ [NL])) NORMAL_TEXT d0 =
              A @ map (Pair NORMAL_TEXT) (split_lines (take j (snd p) @ ?S)) @ (fst p, drop j (snd p)) # B"
    using ib by metis
  from wf d have "NL \<notin> set (snd p)" by simp
  then have "NL \<notin> set (take j (snd p) @ ?S)"
    using search_text_no_NL by (auto dest: in_set_takeD)
  then have sl: "split_lines (take j (snd p) @ ?S) = [take j (snd p) @ ?S]"
    by (rule split_lines_no_NL)
  have d1: "d' = A @ (NORMAL_TEXT, take j (snd p) @ ?S) # (fst p, drop j (snd p)) # B"
    unfolding d' r sl by simp
  from none d have A: "coordinate_paragraphs A lat lon = []" and B: "coordinate_paragraphs B lat lon = []"
    and p: "\<not> (fst p = NORMAL_TEXT \<and> sublist ?S (snd p))"
    by (auto simp: coordinate_paragraphs_Cons split: if_splits)
  have "sublist (drop j (snd p)) (snd p)" by simp
  with p have p': "\<not> (fst p = NORMAL_TEXT \<and> sublist ?S (drop j (snd p)))"
    using sublist_order.order.trans by blast
  have "coordinate_paragraphs d' lat lon = [(NORMAL_TEXT, take j (snd p) @ ?S)]"
    unfolding d1 using A B p' by (simp add: coordinate_paragraphs_Cons)
  moreover have "location_exists_in_doc (body_content d') lat lon url'"
    unfolding d1 location_exists_body_content by simp
  ultimately show ?thesis by simp
qed

lemma archive_location_dup:
  "location_exists_in_doc content lat lon url \<Longrightarrow>
   archive_location content url lat lon country state = SkippedDuplicate"
  by (simp add: archive_location_def)

text \<open>The batch of a call that appends: at most two heading pairs, then the coordinate requests.\<close>

lemma archive_location_AppendedD:
  assumes "archive_location content url lat lon country state = Appended reqs"
  shows "\<not> location_exists_in_doc content lat lon url \<and>
         (\<exists>R1 R2 i k.
            reqs = R1 @ R2 @ coord_requests i (search_text lat lon @ [NL]) url \<and>
            (R1 = [] \<or> R1 = [InsertText 1 (country @ [NL]),
                              UpdateParagraphStyle 1 (1 + length country + 1) HEADING_1]) \<and>
            (R2 = [] \<or> R2 = [InsertText k (state @ [NL]),
                              UpdateParagraphStyle k (k + length state + 1) HEADING_2]))"
proof -
  from assms have nd: "\<not> location_exists_in_doc content lat lon url"
    by (auto simp: archive_location_def split: if_splits)
  obtain ci si where f: "find_headers content country state (None, None) = (ci, si)"
    by (cases "find_headers content country state (None, None)")
  have l: "length country + 2 = 1 + length country + 1" by simp
  show ?thesis
  proof (cases ci; cases si)
    fix a b assume "ci = Some a" "si = Some b"
    with assms nd f have "reqs = [] @ [] @ coord_requests (b + length state + 1) (search_text lat lon @ [NL]) url"
      by (simp add: archive_location_def Let_def)
    with nd show ?thesis by blast
  next
    fix a assume "ci = Some a" "si = None"
    with assms nd f have "reqs = [] @
       [InsertText (a + length country + 1) (state @ [NL]),
        UpdateParagraphStyle (a + length country + 1) (a + length country + 1 + length state + 1) HEADING_2] @
       coord_requests (a + length country + 1 + length state + 1) (search_text lat lon @ [NL]) url"
      by (simp add: archive_location_def Let_def)
    with nd show ?thesis by blast
  next
    fix b assume "ci = None" "si = Some b"
    with assms nd f have "reqs =
       [InsertText 1 (country @ [NL]), UpdateParagraphStyle 1 (1 + length country + 1) HEADING_1] @ [] @
       coord_requests (b + length state + 1) (search_text lat lon @ [NL]) url"
      by (simp add: archive_location_def Let_def)
    with nd show ?thesis by blast
  next
    assume "ci = None" "si = None"
    with assms nd f have "reqs =
       [InsertText 1 (country @ [NL]), UpdateParagraphStyle 1 (1 + length country + 1) HEADING_1] @
       [InsertText (1 + length country + 1) (state @ [NL]),
        UpdateParagraphStyle (1 + length country + 1) (1 + length country + 1 + length state + 1) HEADING_2] @
       coord_requests (1 + length country + 1 + length state + 1) (search_text lat lon @ [NL]) url"
      by (simp add: archive_location_def Let_def)
    with nd show ?thesis by blast
  qed
qed

lemma heading_steps:
  assumes wf: "wf_doc d" and none: "coordinate_paragraphs d lat lon = []"
    and sty: "sty \<noteq> NORMAL_TEXT"
    and R: "R = [] \<or> R = [InsertText i (h @ [NL]), UpdateParagraphStyle i (i + length h + 1) sty]"
    and run: "batch_update R d = Some d'"
  shows "wf_doc d' \<and> coordinate_paragraphs d' lat lon = []"
proof (cases "R = []")
  case True
  with run wf none show ?thesis by simp
next
  case False
  with R run have "batch_update [InsertText i (h @ [NL]), UpdateParagraphStyle i (i + length h + 1) sty] d = Some d'"
    by simp
  from heading_step [OF wf none sty refl this] show ?thesis .
qed


lemma find_headers_state_kept:
  assumes "\<not> list_ex (\<lambda>p. strip (snd p) = state) B"
  shows "snd (find_headers (body_from i B) country state acc) = snd acc"
  using assms
proof (induction B arbitrary: i acc)
  case Nil
  then show ?case by simp
next
  case (Cons q B)
  obtain ci si where acc: "acc = (ci, si)" by (cases acc)
  from Cons.prems have q: "strip (snd q) \<noteq> state" and B: "\<not> list_ex (\<lambda>p. strip (snd p) = state) B"
    by simp_all
  show ?case
    using q Cons.IH [OF B] by (simp add: acc strip_append_NL)
qed

lemma find_headers_state_found:
  assumes "country \<noteq> state" "strip t = state"
    and "\<not> list_ex (\<lambda>p. strip (snd p) = state) B"
  shows "snd (find_headers (body_from i (A @ (hs, t) # B)) country state acc) = Some (i + doc_span A)"
  using assms
proof (induction A arbitrary: i acc)
  case Nil
  obtain ci si where acc: "acc = (ci, si)" by (cases acc)
  show ?case
    using Nil find_headers_state_kept [OF Nil(3), of "i + length t + 1" country "(ci, Some i)"]
    by (simp add: acc strip_append_NL)
next
  case (Cons q A)
  obtain ci si where acc: "acc = (ci, si)" by (cases acc)
  show ?case
    using Cons.IH [OF Cons.prems] by (simp add: acc strip_append_NL add.assoc)
qed

lemma find_headers_country_kept:
  "fst acc \<noteq> None \<Longrightarrow> fst (find_headers (body_from i d) country state acc) \<noteq> None"
proof (induction d arbitrary: i acc)
  case Nil
  then show ?case by simp
next
  case (Cons q d)
  obtain ci si where acc: "acc = (ci, si)" by (cases acc)
  with Cons.prems have "ci \<noteq> None" by simp
  then show ?case using Cons.IH by (simp add: acc)
qed

lemma find_headers_country_found:
  assumes "list_ex (\<lambda>p. strip (snd p) = country) d"
  shows "fst (find_headers (body_from i d) country state acc) \<noteq> None"
  using assms
proof (induction d arbitrary: i acc)
  case Nil
  then show ?case by simp
next
  case (Cons q d)
  obtain ci si where acc: "acc = (ci, si)" by (cases acc)
  show ?case
  proof (cases "strip (snd q) = country")
    case True
    then show ?thesis
      using find_headers_country_kept [of "(Some i, si)" "i + length (snd q) + 1" d country state]
      by (simp add: acc strip_append_NL)
  next
    case False
    with Cons.prems have "list_ex (\<lambda>p. strip (snd p) = country) d" by simp
    from Cons.IH [OF this] False show ?thesis by (simp add: acc strip_append_NL)
  qed
qed

text \<open>With both headers found, the batch is the three coordinate requests.\<close>

lemma archive_location_both_found:
  assumes nd: "\<not> location_exists_in_doc (body_content (A @ (hs, state) # B)) lat lon url"
    and ne: "country \<noteq> state" and st: "strip state = state"
    and c: "list_ex (\<lambda>p. strip (snd p) = country) (A @ (hs, state) # B)"
    and s: "\<not> list_ex (\<lambda>p. strip (snd p) = state) B"
  shows "archive_location (body_content (A @ (hs, state) # B)) url lat lon country state =
           Appended (coord_requests (doc_span A + length state + 2) (search_text lat lon @ [NL]) url)"
proof -
  let ?d = "A @ (hs, state) # B"
  let ?f = "find_headers (body_content ?d) country state (None, None)"
  have f: "?f = find_headers (body_from 1 ?d) country state (None, None)"
    by (simp add: body_content_def)
  have 1: "snd ?f = Some (1 + doc_span A)"
    unfolding f by (rule find_headers_state_found [OF ne st s])
  have "fst ?f \<noteq> None"
    unfolding f by (rule find_headers_country_found [OF c])
  then obtain n where 2: "fst ?f = Some n" by blast
  show ?thesis
    using nd 1 2 by (simp add: archive_location_def Let_def)
qed

text \<open>The three coordinate requests at the start of a paragraph put the line before it.\<close>

lemma coord_requests_at_paragraph_start:
  assumes wf: "wf_doc (A @ q # B)"
  shows "batch_update (coord_requests (doc_span A + 1) (search_text lat lon @ [NL]) url) (A @ q # B) =
           Some (A @ (NORMAL_TEXT, search_text lat lon) # q # B)"
proof -
  let ?S = "search_text lat lon"
  let ?d0 = "A @ map (Pair (fst q)) (split_lines (take 0 (snd q) @ ?S)) @ (fst q, drop 0 (snd q)) # B"
  have k: "doc_span A = doc_span A + 0" by simp
  note ir = insert_restyle_at [OF wf _ k, of ?S]
  have sl: "split_lines ?S = [?S]" by (rule split_lines_no_NL [OF search_text_no_NL])
  have ins: "insert_at (doc_span A) (?S @ [NL]) (A @ q # B) = Some ?d0"
    using ir(1) by simp
  have rs: "restyle_from 1 (doc_span A + 1) (doc_span A + 1 + (length ?S + 1)) NORMAL_TEXT ?d0 =
              A @ (NORMAL_TEXT, ?S) # q # B"
    using ir(2) [of NORMAL_TEXT] by (simp add: sl)
  have e: "doc_end ?d0 = doc_span A + length ?S + length (snd q) + doc_span B + 3"
    by (simp add: doc_end_def sl)
  have ne: "0 < length ?S" using search_text_nonempty by simp
  show ?thesis
    using ins rs e ne
    by (simp add: coord_requests_def strip_coord_text)
qed

lemma strip_search_text: "strip (search_text lat lon) = search_text lat lon"
  by (simp add: strip_id search_text_nonempty search_text_hd search_text_last)

text \<open>A paragraph that reads as a label is not the coordinate text of a record that is new.\<close>

lemma new_record_is_no_label:
  assumes nd: "\<not> location_exists_in_doc (body_content d) lat lon url"
    and l: "list_ex (\<lambda>p. strip (snd p) = l) d"
  shows "search_text lat lon \<noteq> l"
proof
  assume e: "search_text lat lon = l"
  from l obtain p where p: "p \<in> set d" "strip (snd p) = l" by (auto simp: list_ex_iff)
  have "sublist (strip (snd p)) (snd p @ [NL])"
    by (rule sublist_append_right [OF sublist_strip])
  with p e have "sublist (search_text lat lon) (snd p @ [NL])" by simp
  with p(1) have "location_exists_in_doc (body_content d) lat lon url"
    by (auto simp: location_exists_body_content list_ex_iff)
  with nd show False by simp
qed


subsection \<open>Evaluating the writer on given documents\<close>

lemmas fmt_eval = search_text_def fixed6_def round_half_even_def show_nat.simps digit_char_def

lemmas archive_eval =
  archive_location_def body_content_def strip_def is_space_def sublist_Cons_right
  coord_requests_def Let_def

lemma search_text_sf:
  "search_text (Finite False (75 / 2)) (Finite True (489 / 4)) = ''37.500000, -122.250000''"
  by (simp add: fmt_eval)

lemma search_text_la:
  "search_text (Finite False (137 / 4)) (Finite True (237 / 2)) = ''34.250000, -118.500000''"
  by (simp add: fmt_eval)

lemma search_text_brest:
  "search_text (Finite False (193 / 4)) (Finite True (7 / 2)) = ''48.250000, -3.500000''"
  by (simp add: fmt_eval)

lemma search_text_vannes:
  "search_text (Finite False (191 / 4)) (Finite True (11 / 4)) = ''47.750000, -2.750000''"
  by (simp add: fmt_eval)

subsection \<open>Archiving the same record twice\<close>

text \<open>
  Claim C1. When a call of \<open>archive_location\<close> has appended a record (its batch was
  applied), a second call for the same coordinates and url finds the coordinate string
  or the url in a paragraph of the document, returns the outcome SkippedDuplicate, which
  carries no request, and leaves the document as it is; the document holds exactly one
  NORMAL_TEXT paragraph with the coordinate string of the record.
\<close>

theorem second_archive_is_skipped:
  assumes wf: "wf_doc d"
    and first: "run_archive d url lat lon country state = Some (Appended reqs, d1)"
  shows "location_exists_in_doc (body_content d1) lat lon url \<and>
         archive_location (body_content d1) url lat lon country state = SkippedDuplicate \<and>
         run_archive d1 url lat lon country state = Some (SkippedDuplicate, d1) \<and>
         length (coordinate_paragraphs d1 lat lon) = 1"
proof -
  from first have al: "archive_location (body_content d) url lat lon country state = Appended reqs"
    and bu: "batch_update reqs d = Some d1"
    by (auto simp: run_archive_def split: outcome.splits)
  from archive_location_AppendedD [OF al] obtain R1 R2 i k where
    nd: "\<not> location_exists_in_doc (body_content d) lat lon url"
    and reqs: "reqs = R1 @ R2 @ coord_requests i (search_text lat lon @ [NL]) url"
    and R1: "R1 = [] \<or> R1 = [InsertText 1 (country @ [NL]),
                              UpdateParagraphStyle 1 (1 + length country + 1) HEADING_1]"
    and R2: "R2 = [] \<or> R2 = [InsertText k (state @ [NL]),
                              UpdateParagraphStyle k (k + length state + 1) HEADING_2]"
    by blast
  from bu reqs obtain da db where
    a: "batch_update R1 d = Some da" and b: "batch_update R2 da = Some db"
    and c: "batch_update (coord_requests i (search_text lat lon @ [NL]) url) db = Some d1"
    by (auto simp: batch_update_append split: option.splits)
  have none: "coordinate_paragraphs d lat lon = []"
    by (rule not_dup_no_coordinate_paragraphs [OF nd])
  have "wf_doc da \<and> coordinate_paragraphs da lat lon = []"
    by (rule heading_steps [OF wf none _ R1 a]) simp
  then have "wf_doc db \<and> coordinate_paragraphs db lat lon = []"
    using heading_steps [OF _ _ _ R2 b, of lat lon] by simp
  then have "length (coordinate_paragraphs d1 lat lon) = 1 \<and>
         location_exists_in_doc (body_content d1) lat lon url"
    using coord_step [OF _ _ c] by blast
  then show ?thesis
    by (simp add: run_archive_def archive_location_dup)
qed

lemma requests_empty_doc:
  "archive_location (body_content [(NORMAL_TEXT, [])])
     ''https://www.google.com/maps/@37.5,-122.25,3a'' (Finite False (75 / 2)) (Finite True (489 / 4)) ''United States'' ''California'' =
   Appended
     [InsertText 1 (''United States'' @ [NL]), UpdateParagraphStyle 1 15 HEADING_1,
      InsertText 15 (''California'' @ [NL]), UpdateParagraphStyle 15 26 HEADING_2,
      InsertText 26 (''37.500000, -122.250000'' @ [NL]),
      UpdateTextStyle 26 48 ''https://www.google.com/maps/@37.5,-122.25,3a'',
      UpdateParagraphStyle 26 49 NORMAL_TEXT]"
  by (simp add: archive_eval search_text_sf)

lemma batch_empty_doc:
  "batch_update
     [InsertText 1 (''United States'' @ [NL]), UpdateParagraphStyle 1 15 HEADING_1,
      InsertText 15 (''California'' @ [NL]), UpdateParagraphStyle 15 26 HEADING_2,
      InsertText 26 (''37.500000, -122.250000'' @ [NL]),
      UpdateTextStyle 26 48 ''https://www.google.com/maps/@37.5,-122.25,3a'',
      UpdateParagraphStyle 26 49 NORMAL_TEXT]
     [(NORMAL_TEXT, [])] =
   Some [(HEADING_1, ''United States''), (HEADING_2, ''California''),
         (NORMAL_TEXT, ''37.500000, -122.250000''), (NORMAL_TEXT, [])]"
  by (simp add: doc_end_def)

lemma first_archive_empty_doc:
  "run_archive [(NORMAL_TEXT, [])]
     ''https://www.google.com/maps/@37.5,-122.25,3a'' (Finite False (75 / 2)) (Finite True (489 / 4)) ''United States'' ''California'' =
   Some (Appended
     [InsertText 1 (''United States'' @ [NL]), UpdateParagraphStyle 1 15 HEADING_1,
      InsertText 15 (''California'' @ [NL]), UpdateParagraphStyle 15 26 HEADING_2,
      InsertText 26 (''37.500000, -122.250000'' @ [NL]),
      UpdateTextStyle 26 48 ''https://www.google.com/maps/@37.5,-122.25,3a'',
      UpdateParagraphStyle 26 49 NORMAL_TEXT],
     [(HEADING_1, ''United States''), (HEADING_2, ''California''),
      (NORMAL_TEXT, ''37.500000, -122.250000''), (NORMAL_TEXT, [])])"
  unfolding run_archive_def requests_empty_doc outcome.case batch_empty_doc by simp

lemma wf_empty_doc: "wf_doc [(NORMAL_TEXT, [])]"
  by simp

theorem second_archive_is_skipped_witness:
  "location_exists_in_doc
     (body_content [(HEADING_1, ''United States''), (HEADING_2, ''California''),
        (NORMAL_TEXT, ''37.500000, -122.250000''), (NORMAL_TEXT, [])])
     (Finite False (75 / 2)) (Finite True (489 / 4)) ''https://www.google.com/maps/@37.5,-122.25,3a'' \<and>
   archive_location
     (body_content [(HEADING_1, ''United States''), (HEADING_2, ''California''),
        (NORMAL_TEXT, ''37.500000, -122.250000''), (NORMAL_TEXT, [])])
     ''https://www.google.com/maps/@37.5,-122.25,3a'' (Finite False (75 / 2)) (Finite True (489 / 4)) ''United States'' ''California'' =
     SkippedDuplicate \<and>
   run_archive [(HEADING_1, ''United States''), (HEADING_2, ''California''),
      (NORMAL_TEXT, ''37.500000, -122.250000''), (NORMAL_TEXT, [])]
     ''https://www.google.com/maps/@37.5,-122.25,3a'' (Finite False (75 / 2)) (Finite True (489 / 4)) ''United States'' ''California'' =
     Some (SkippedDuplicate, [(HEADING_1, ''United States''), (HEADING_2, ''California''),
      (NORMAL_TEXT, ''37.500000, -122.250000''), (NORMAL_TEXT, [])]) \<and>
   length (coordinate_paragraphs [(HEADING_1, ''United States''), (HEADING_2, ''California''),
      (NORMAL_TEXT, ''37.500000, -122.250000''), (NORMAL_TEXT, [])]
      (Finite False (75 / 2)) (Finite True (489 / 4))) = 1"
  by (rule second_archive_is_skipped [OF wf_empty_doc first_archive_empty_doc])

subsection \<open>Two records under the same headings\<close>


lemma requests_first:
  "archive_location
     (body_content [(HEADING_1, ''United States''), (HEADING_2, ''California''), (NORMAL_TEXT, [])])
     ''https://www.google.com/maps/@37.5,-122.25,3a'' (Finite False (75 / 2)) (Finite True (489 / 4)) ''United States'' ''California'' =
   Appended (coord_requests 26 (''37.500000, -122.250000'' @ [NL]) ''https://www.google.com/maps/@37.5,-122.25,3a'')"
  by (simp add: archive_eval search_text_sf)

lemma batch_first:
  "batch_update (coord_requests 26 (''37.500000, -122.250000'' @ [NL]) ''https://www.google.com/maps/@37.5,-122.25,3a'')
     [(HEADING_1, ''United States''), (HEADING_2, ''California''), (NORMAL_TEXT, [])] =
   Some [(HEADING_1, ''United States''), (HEADING_2, ''California''),
         (NORMAL_TEXT, ''37.500000, -122.250000''), (NORMAL_TEXT, [])]"
  by (simp add: coord_requests_def strip_def is_space_def doc_end_def)

lemma requests_second:
  "archive_location
     (body_content [(HEADING_1, ''United States''), (HEADING_2, ''California''),
         (NORMAL_TEXT, ''37.500000, -122.250000''), (NORMAL_TEXT, [])])
     ''https://www.google.com/maps/@34.25,-118.5,3a'' (Finite False (137 / 4)) (Finite True (237 / 2)) ''United States'' ''California'' =
   Appended (coord_requests 26 (''34.250000, -118.500000'' @ [NL]) ''https://www.google.com/maps/@34.25,-118.5,3a'')"
  by (simp add: archive_eval search_text_la)

lemma batch_second:
  "batch_update (coord_requests 26 (''34.250000, -118.500000'' @ [NL]) ''https://www.google.com/maps/@34.25,-118.5,3a'')
     [(HEADING_1, ''United States''), (HEADING_2, ''California''),
         (NORMAL_TEXT, ''37.500000, -122.250000''), (NORMAL_TEXT, [])] =
   Some [(HEADING_1, ''United States''), (HEADING_2, ''California''),
         (NORMAL_TEXT, ''34.250000, -118.500000''),
         (NORMAL_TEXT, ''37.500000, -122.250000''), (NORMAL_TEXT, [])]"
  by (simp add: coord_requests_def strip_def is_space_def doc_end_def)

text \<open>
  Claim C2 says that two coordinates archived under an existing country and state
  appear in arrival order. Each coordinate line is inserted at the offset right after
  the state heading, so the line archived second lands before the line archived first:
  below, the line of the second call (34.25, -118.5) stands before the line of the
  first call (37.5, -122.25).
\<close>

theorem arrival_order_counterexample:
  "run_archive [(HEADING_1, ''United States''), (HEADING_2, ''California''), (NORMAL_TEXT, [])]
     ''https://www.google.com/maps/@37.5,-122.25,3a'' (Finite False (75 / 2)) (Finite True (489 / 4))
     ''United States'' ''California'' =
   Some (Appended (coord_requests 26 (''37.500000, -122.250000'' @ [NL]) ''https://www.google.com/maps/@37.5,-122.25,3a''),
     [(HEADING_1, ''United States''), (HEADING_2, ''California''),
      (NORMAL_TEXT, ''37.500000, -122.250000''), (NORMAL_TEXT, [])]) \<and>
   run_archive [(HEADING_1, ''United States''), (HEADING_2, ''California''),
      (NORMAL_TEXT, ''37.500000, -122.250000''), (NORMAL_TEXT, [])]
     ''https://www.google.com/maps/@34.25,-118.5,3a'' (Finite False (137 / 4)) (Finite True (237 / 2))
     ''United States'' ''California'' =
   Some (Appended (coord_requests 26 (''34.250000, -118.500000'' @ [NL]) ''https://www.google.com/maps/@34.25,-118.5,3a''),
     [(HEADING_1, ''United States''), (HEADING_2, ''California''),
      (NORMAL_TEXT, ''34.250000, -118.500000''),
      (NORMAL_TEXT, ''37.500000, -122.250000''), (NORMAL_TEXT, [])])"
  unfolding run_archive_def requests_first requests_second outcome.case batch_first batch_second
  by simp

text \<open>
  Claim C2, amended. Take a document of newline-free paragraphs in which some paragraph
  reads as the country, a paragraph has exactly the state label as its text, at least
  one paragraph follows it and no later paragraph reads as the state; the two labels
  differ and the state label has no white space at its ends. Archiving two different
  non-duplicate coordinates under that country and state inserts no heading: each call
  sends the three coordinate requests alone, at the offset right after the state
  heading, and the paragraphs that read as the country and as the state stay those of
  the document before (exactly one of each when there was one of each). The two
  coordinate lines follow the state heading in reverse arrival order: the line archived
  second stands before the line archived first.
\<close>

theorem later_line_goes_first:
  assumes wf: "wf_doc (A @ (hs, state) # q # B)"
    and ne: "country \<noteq> state" and st: "strip state = state"
    and c: "list_ex (\<lambda>p. strip (snd p) = country) (A @ (hs, state) # q # B)"
    and s: "\<not> list_ex (\<lambda>p. strip (snd p) = state) (q # B)"
    and nd1: "\<not> location_exists_in_doc (body_content (A @ (hs, state) # q # B)) lat1 lon1 url1"
    and nd2: "\<not> location_exists_in_doc
                 (body_content (A @ (hs, state) # (NORMAL_TEXT, search_text lat1 lon1) # q # B))
                 lat2 lon2 url2"
  shows "run_archive (A @ (hs, state) # q # B) url1 lat1 lon1 country state =
           Some (Appended (coord_requests (doc_span A + length state + 2)
                             (search_text lat1 lon1 @ [NL]) url1),
                 A @ (hs, state) # (NORMAL_TEXT, search_text lat1 lon1) # q # B) \<and>
         run_archive (A @ (hs, state) # (NORMAL_TEXT, search_text lat1 lon1) # q # B)
             url2 lat2 lon2 country state =
           Some (Appended (coord_requests (doc_span A + length state + 2)
                             (search_text lat2 lon2 @ [NL]) url2),
                 A @ (hs, state) # (NORMAL_TEXT, search_text lat2 lon2) #
                   (NORMAL_TEXT, search_text lat1 lon1) # q # B) \<and>
         labelled country
           (A @ (hs, state) # (NORMAL_TEXT, search_text lat2 lon2) #
              (NORMAL_TEXT, search_text lat1 lon1) # q # B) =
           labelled country (A @ (hs, state) # q # B) \<and>
         labelled state
           (A @ (hs, state) # (NORMAL_TEXT, search_text lat2 lon2) #
              (NORMAL_TEXT, search_text lat1 lon1) # q # B) =
           labelled state (A @ (hs, state) # q # B)"
proof -
  let ?S1 = "search_text lat1 lon1" and ?S2 = "search_text lat2 lon2"
  let ?d = "A @ (hs, state) # q # B"
  let ?d1 = "A @ (hs, state) # (NORMAL_TEXT, ?S1) # q # B"
  let ?d2 = "A @ (hs, state) # (NORMAL_TEXT, ?S2) # (NORMAL_TEXT, ?S1) # q # B"
  let ?i = "doc_span A + length state + 2"
  have sp: "?i = doc_span (A @ [(hs, state)]) + 1" by simp
  have sd: "list_ex (\<lambda>p. strip (snd p) = state) ?d" using st by simp
  have S1c: "?S1 \<noteq> country" by (rule new_record_is_no_label [OF nd1 c])
  have S1s: "?S1 \<noteq> state" by (rule new_record_is_no_label [OF nd1 sd])
  have c1: "list_ex (\<lambda>p. strip (snd p) = country) ?d1" using c by auto
  have sd1: "list_ex (\<lambda>p. strip (snd p) = state) ?d1" using st by simp
  have S2c: "?S2 \<noteq> country" by (rule new_record_is_no_label [OF nd2 c1])
  have S2s: "?S2 \<noteq> state" by (rule new_record_is_no_label [OF nd2 sd1])
  have s1: "\<not> list_ex (\<lambda>p. strip (snd p) = state) ((NORMAL_TEXT, ?S1) # q # B)"
    using s S1s by (simp add: strip_search_text)
  have wf1: "wf_doc ?d1" using wf search_text_no_NL by simp
  have a1: "archive_location (body_content ?d) url1 lat1 lon1 country state =
              Appended (coord_requests ?i (?S1 @ [NL]) url1)"
    by (rule archive_location_both_found [OF nd1 ne st c s])
  have b1: "batch_update (coord_requests ?i (?S1 @ [NL]) url1) ?d = Some ?d1"
    unfolding sp using coord_requests_at_paragraph_start [of "A @ [(hs, state)]" q B lat1 lon1 url1] wf
    by simp
  have a2: "archive_location (body_content ?d1) url2 lat2 lon2 country state =
              Appended (coord_requests ?i (?S2 @ [NL]) url2)"
    by (rule archive_location_both_found [OF nd2 ne st c1 s1])
  have b2: "batch_update (coord_requests ?i (?S2 @ [NL]) url2) ?d1 = Some ?d2"
    unfolding sp
    using coord_requests_at_paragraph_start [of "A @ [(hs, state)]" "(NORMAL_TEXT, ?S1)" "q # B" lat2 lon2 url2] wf1
    by simp
  have r1: "run_archive ?d url1 lat1 lon1 country state =
              Some (Appended (coord_requests ?i (?S1 @ [NL]) url1), ?d1)"
    unfolding run_archive_def a1 outcome.case b1 by simp
  have r2: "run_archive ?d1 url2 lat2 lon2 country state =
              Some (Appended (coord_requests ?i (?S2 @ [NL]) url2), ?d2)"
    unfolding run_archive_def a2 outcome.case b2 by simp
  have l1: "labelled country ?d2 = labelled country ?d"
    using S1c S2c by (simp add: labelled_def strip_search_text)
  have l2: "labelled state ?d2 = labelled state ?d"
    using S1s S2s by (simp add: labelled_def strip_search_text)
  from r1 r2 l1 l2 show ?thesis by (intro conjI)
qed

lemma bretagne_wf:
  "wf_doc ([(HEADING_1, ''France'')] @ (HEADING_2, ''Bretagne'') # (NORMAL_TEXT, []) # [])"
  by simp

lemma bretagne_labels:
  "''France'' \<noteq> ''Bretagne''"
  "strip ''Bretagne'' = ''Bretagne''"
  "list_ex (\<lambda>p. strip (snd p) = ''France'')
     ([(HEADING_1, ''France'')] @ (HEADING_2, ''Bretagne'') # (NORMAL_TEXT, []) # [])"
  "\<not> list_ex (\<lambda>p. strip (snd p) = ''Bretagne'') ((NORMAL_TEXT, []) # [])"
  by (simp_all add: strip_def is_space_def)

lemma bretagne_new_1:
  "\<not> location_exists_in_doc
       (body_content ([(HEADING_1, ''France'')] @ (HEADING_2, ''Bretagne'') # (NORMAL_TEXT, []) # []))
       (Finite False (193 / 4)) (Finite True (7 / 2)) ''https://www.google.com/maps/@48.25,-3.5,3a''"
  by (simp add: location_exists_body_content search_text_brest sublist_Cons_right)

lemma bretagne_new_2:
  "\<not> location_exists_in_doc
       (body_content ([(HEADING_1, ''France'')] @ (HEADING_2, ''Bretagne'') #
          (NORMAL_TEXT, search_text (Finite False (193 / 4)) (Finite True (7 / 2))) #
          (NORMAL_TEXT, []) # []))
       (Finite False (191 / 4)) (Finite True (11 / 4)) ''https://www.google.com/maps/@47.75,-2.75,3a''"
  by (simp add: location_exists_body_content search_text_brest search_text_vannes sublist_Cons_right)

theorem later_line_goes_first_witness:
  "run_archive [(HEADING_1, ''France''), (HEADING_2, ''Bretagne''), (NORMAL_TEXT, [])]
     ''https://www.google.com/maps/@48.25,-3.5,3a'' (Finite False (193 / 4)) (Finite True (7 / 2)) ''France'' ''Bretagne'' =
   Some (Appended (coord_requests (doc_span [(HEADING_1, ''France'')] + length ''Bretagne'' + 2)
                     (''48.250000, -3.500000'' @ [NL]) ''https://www.google.com/maps/@48.25,-3.5,3a''),
     [(HEADING_1, ''France''), (HEADING_2, ''Bretagne''),
      (NORMAL_TEXT, ''48.250000, -3.500000''), (NORMAL_TEXT, [])]) \<and>
   run_archive [(HEADING_1, ''France''), (HEADING_2, ''Bretagne''),
      (NORMAL_TEXT, ''48.250000, -3.500000''), (NORMAL_TEXT, [])]
     ''https://www.google.com/maps/@47.75,-2.75,3a'' (Finite False (191 / 4)) (Finite True (11 / 4)) ''France'' ''Bretagne'' =
   Some (Appended (coord_requests (doc_span [(HEADING_1, ''France'')] + length ''Bretagne'' + 2)
                     (''47.750000, -2.750000'' @ [NL]) ''https://www.google.com/maps/@47.75,-2.75,3a''),
     [(HEADING_1, ''France''), (HEADING_2, ''Bretagne''),
      (NORMAL_TEXT, ''47.750000, -2.750000''),
      (NORMAL_TEXT, ''48.250000, -3.500000''), (NORMAL_TEXT, [])])"
  using later_line_goes_first [OF bretagne_wf bretagne_labels bretagne_new_1 bretagne_new_2]
  by (simp add: search_text_brest search_text_vannes)

subsection \<open>The offset of the coordinate line\<close>

lemma requests_punjab:
  "archive_location
     (body_content [(HEADING_1, ''India''), (HEADING_2, ''Punjab''),
        (NORMAL_TEXT, ''30.750000, 76.750000''), (NORMAL_TEXT, [])])
     ''https://www.google.com/maps/@31.5,74.25,3a'' (Finite False (63 / 2)) (Finite False (297 / 4)) ''Pakistan'' ''Punjab'' =
   Appended
     [InsertText 1 (''Pakistan'' @ [NL]), UpdateParagraphStyle 1 10 HEADING_1,
      InsertText 14 (''31.500000, 74.250000'' @ [NL]),
      UpdateTextStyle 14 34 ''https://www.google.com/maps/@31.5,74.25,3a'',
      UpdateParagraphStyle 14 35 NORMAL_TEXT]"
  by (simp add: archive_eval fmt_eval)

lemma batch_punjab:
  "batch_update
     [InsertText 1 (''Pakistan'' @ [NL]), UpdateParagraphStyle 1 10 HEADING_1,
      InsertText 14 (''31.500000, 74.250000'' @ [NL]),
      UpdateTextStyle 14 34 ''https://www.google.com/maps/@31.5,74.25,3a'',
      UpdateParagraphStyle 14 35 NORMAL_TEXT]
     [(HEADING_1, ''India''), (HEADING_2, ''Punjab''),
      (NORMAL_TEXT, ''30.750000, 76.750000''), (NORMAL_TEXT, [])] =
   Some [(HEADING_1, ''Pakistan''), (NORMAL_TEXT, ''Indi31.500000, 74.250000''),
         (HEADING_1, ''a''), (HEADING_2, ''Punjab''),
         (NORMAL_TEXT, ''30.750000, 76.750000''), (NORMAL_TEXT, [])]"
  by (simp add: doc_end_def)

text \<open>
  Claim C5 says that the coordinate line is inserted right after the state block, at
  the state anchor plus the length of the state plus one, the anchor accounting for the
  text inserted earlier in the same batch. When the state heading exists and the
  country heading does not, the anchor is the offset read before the batch, and the
  country heading that the batch inserts first shifts the state heading away from it.
  Here the state heading Punjab starts at 7 under the country India; archiving a
  place in Pakistan, Punjab inserts the nine characters of the country line at 1 and
  then the coordinate line at 7 + 6 + 1 = 14, which by then is inside the heading
  India: the coordinate line is not after the state block.
\<close>

theorem stale_state_offset:
  "run_archive [(HEADING_1, ''India''), (HEADING_2, ''Punjab''),
      (NORMAL_TEXT, ''30.750000, 76.750000''), (NORMAL_TEXT, [])]
     ''https://www.google.com/maps/@31.5,74.25,3a'' (Finite False (63 / 2)) (Finite False (297 / 4)) ''Pakistan'' ''Punjab'' =
   Some (Appended
     [InsertText 1 (''Pakistan'' @ [NL]), UpdateParagraphStyle 1 10 HEADING_1,
      InsertText 14 (''31.500000, 74.250000'' @ [NL]),
      UpdateTextStyle 14 34 ''https://www.google.com/maps/@31.5,74.25,3a'',
      UpdateParagraphStyle 14 35 NORMAL_TEXT],
     [(HEADING_1, ''Pakistan''), (NORMAL_TEXT, ''Indi31.500000, 74.250000''),
      (HEADING_1, ''a''), (HEADING_2, ''Punjab''),
      (NORMAL_TEXT, ''30.750000, 76.750000''), (NORMAL_TEXT, [])])"
  unfolding run_archive_def requests_punjab outcome.case batch_punjab by simp

end
